theory Spec2Isabelle
  imports Complex_Main
begin

section \<open>Numbers\<close>

text \<open>
  The sources are TypeScript; every \<^verbatim>\<open>number\<close> is an IEEE-754 double. The embedding
  reads a \<^verbatim>\<open>number\<close> as a \<^typ>\<open>real\<close>, and every place where a double would leave
  the reals (a division by zero giving \<^verbatim>\<open>Infinity\<close> or \<^verbatim>\<open>NaN\<close>) is an explicit error
  result of the model. DOM pixel counts (\<^verbatim>\<open>videoWidth\<close>) are naturals, results of
  \<^verbatim>\<open>Math.round\<close> and \<^verbatim>\<open>Math.ceil\<close> are integers.

  Where a computed number is turned into a pixel count or a frame count, the last bit
  of the double decides the integer, so there the operations are rounded as IEEE-754
  rounds them: \<open>double_of v\<close> is the double nearest to \<open>v\<close>, the one with the even
  significand at a tie (53 bits of significand; overflow and subnormal numbers are far
  from the sizes and durations of a recording and are not modelled). This is done in
  \<open>croppedSize\<close>, \<open>croppedExportSize\<close> and \<open>resampleWindow\<close>. The physics of the camera
  and the weighted averages of the smoother are continuous quantities and are computed
  in exact arithmetic; in particular the loop variable \<open>t\<close> of the simulation is
  \<open>trimStart + k / 60\<close> with no accumulated error, and \<^verbatim>\<open>toFixed\<close> rounds the exact
  value of a path entry.
\<close>

definition roundEven :: "real \<Rightarrow> int" where
  \<comment> \<open>The nearest integer, the even one at a tie.\<close>
  "roundEven v =
     (let n = \<lfloor>v\<rfloor>;
          r = v - real_of_int n
      in if r < 1 / 2 then n else if 1 / 2 < r then n + 1 else if even n then n else n + 1)"

definition double_of :: "real \<Rightarrow> real" where
  \<comment> \<open>Round to nearest, ties to even, on 53 bits: for \<open>2^e \<le> |v| < 2^(e+1)\<close> the doubles
      are the multiples of \<open>2^(e-52)\<close>.\<close>
  "double_of v =
     (if v = 0 then 0
      else let ulp = 2 powi (\<lfloor>log 2 \<bar>v\<bar>\<rfloor> - 52)
           in real_of_int (roundEven (v / ulp)) * ulp)"

definition js_round :: "real \<Rightarrow> int" where
  \<comment> \<open>\<^verbatim>\<open>Math.round\<close> of a double: the nearest integer, a tie goes up (exactly, with
      no rounding of \<open>v + 0.5\<close>).\<close>
  "js_round v = \<lfloor>v + 1 / 2\<rfloor>"

definition toFixed :: "nat \<Rightarrow> real \<Rightarrow> real" where
  \<comment> \<open>\<^verbatim>\<open>Number(v.toFixed(d))\<close>: \<^verbatim>\<open>toFixed\<close> works on the magnitude and picks the integer
      \<open>n\<close> with \<open>n / 10^d\<close> nearest to it, the larger one at a tie.\<close>
  "toFixed d v =
     (if v < 0 then - (real_of_int \<lfloor>(- v) * 10 ^ d + 1 / 2\<rfloor> / 10 ^ d)
      else real_of_int \<lfloor>v * 10 ^ d + 1 / 2\<rfloor> / 10 ^ d)"

fun findIndex :: "('a \<Rightarrow> bool) \<Rightarrow> 'a list \<Rightarrow> nat option" where
  \<comment> \<open>\<^verbatim>\<open>Array.prototype.findIndex\<close>; \<open>None\<close> is the source's \<open>-1\<close>.\<close>
  "findIndex P [] = None"
| "findIndex P (a # as) = (if P a then Some 0 else map_option Suc (findIndex P as))"

section \<open>Data model (types/video)\<close>

record MousePosition =
  mp_x :: real
  mp_y :: real
  timestamp :: real
  isClicked :: bool
  cursor_type :: string

datatype EasingType = Linear | EaseOut | EaseInOut

record ZoomKeyframe =
  time :: real
  duration :: real
  zoomFactor :: real
  positionX :: real
  positionY :: real
  easingType :: EasingType

record PathEntry =
  pe_time :: real
  pe_x :: real
  pe_y :: real
  pe_zoom :: real

record InfluencePoint =
  ip_time :: real
  ip_value :: real

record CropRect =
  crop_x :: real
  crop_y :: real
  crop_width :: real
  crop_height :: real

record VideoSegment =
  trimStart :: real
  trimEnd :: real
  zoomKeyframes :: "ZoomKeyframe list"
  smoothMotionPath :: "PathEntry list option"
  zoomInfluencePoints :: "InfluencePoint list option"
  crop :: "CropRect option"

section \<open>Camera path generator (AutoZoomGenerator)\<close>

subsection \<open>Physics configuration\<close>

definition TENSION :: real where "TENSION = 25"
definition FRICTION :: real where "FRICTION = 25"
definition MASS :: real where "MASS = 3"
definition LOOK_AHEAD :: real where "LOOK_AHEAD = 2 / 10"
definition MAX_VELOCITY_ZOOM_PENALTY :: real where "MAX_VELOCITY_ZOOM_PENALTY = 1000"
definition BASE_ZOOM :: real where "BASE_ZOOM = 14 / 10"
definition MIN_ZOOM :: real where "MIN_ZOOM = 1"
definition MAX_ZOOM :: real where "MAX_ZOOM = 2"

record InteractionState =
  isClicking :: bool
  clickTime :: real
  hoverTime :: real
  lastPos :: "real \<times> real"

record PhysicsState =
  ps_x :: real
  ps_y :: real
  ps_zoom :: real
  ps_vx :: real
  ps_vy :: real
  ps_vz :: real

datatype sim_error =
  TypeError    \<comment> \<open>a property read on \<^verbatim>\<open>undefined\<close> (an index outside the array)\<close>
| NonFinite    \<comment> \<open>a division by zero: the double is \<^verbatim>\<open>Infinity\<close> or \<^verbatim>\<open>NaN\<close>\<close>

subsection \<open>Helpers\<close>

definition sample :: "MousePosition list \<Rightarrow> real \<Rightarrow> sim_error + real \<times> real" where
  "sample data t =
     (if data = [] then Inl TypeError
      else if t \<le> timestamp (data ! 0) then Inr (mp_x (data ! 0), mp_y (data ! 0))
      else if t \<ge> timestamp (data ! (length data - 1))
        then Inr (mp_x (data ! (length data - 1)), mp_y (data ! (length data - 1)))
      else (case findIndex (\<lambda>p. timestamp p \<ge> t) data of
              None \<Rightarrow> Inr (mp_x (data ! (length data - 1)), mp_y (data ! (length data - 1)))
            | Some idx \<Rightarrow>
                if idx = 0 then Inl TypeError
                else
                  let p1 = data ! (idx - 1);
                      p2 = data ! idx
                  in if timestamp p2 - timestamp p1 = 0 then Inl NonFinite
                     else
                       let ratio = (t - timestamp p1) / (timestamp p2 - timestamp p1)
                       in Inr (mp_x p1 + (mp_x p2 - mp_x p1) * ratio,
                               mp_y p1 + (mp_y p2 - mp_y p1) * ratio)))"

definition getVelocity :: "MousePosition list \<Rightarrow> real \<Rightarrow> sim_error + real" where
  "getVelocity data t =
     (let window = 1 / 10 in
      case sample data (t - window) of
        Inl e \<Rightarrow> Inl e
      | Inr p1 \<Rightarrow>
          (case sample data (t + window) of
             Inl e \<Rightarrow> Inl e
           | Inr p2 \<Rightarrow>
               let dist = sqrt ((fst p2 - fst p1) ^ 2 + (snd p2 - snd p1) ^ 2)
               in Inr (dist / (window * 2))))"

definition checkClick :: "MousePosition list \<Rightarrow> real \<Rightarrow> real \<Rightarrow> bool" where
  "checkClick data t window =
     (let start = t - window / 2;
          end' = t + window / 2
      in list_ex (\<lambda>p. timestamp p \<ge> start \<and> timestamp p \<le> end' \<and> isClicked p) data)"

record KeyframeInfluence =
  ki_x :: real
  ki_y :: real
  ki_zoom :: real
  ki_weight :: real

definition nearestKeyframe :: "ZoomKeyframe list \<Rightarrow> real \<Rightarrow> (ZoomKeyframe \<times> real) option" where
  \<comment> \<open>\<^verbatim>\<open>keyframes.map(kf => ({kf, dist})).filter(dist < WINDOW).sort(by dist)[0]\<close>,
      with \<^verbatim>\<open>WINDOW = 1.5\<close>; the sort is stable.\<close>
  "nearestKeyframe keyframes t =
     (case sort_key snd (filter (\<lambda>item. snd item < 15 / 10)
                           (map (\<lambda>kf. (kf, \<bar>time kf - t\<bar>)) keyframes)) of
        [] \<Rightarrow> None
      | best # _ \<Rightarrow> Some best)"

definition getKeyframeInfluence :: "ZoomKeyframe list \<Rightarrow> real \<Rightarrow> KeyframeInfluence" where
  \<comment> \<open>The source also takes the video size, which it does not use.\<close>
  "getKeyframeInfluence keyframes t =
     (case nearestKeyframe keyframes t of
        None \<Rightarrow> \<lparr>ki_x = 5 / 10, ki_y = 5 / 10, ki_zoom = 1, ki_weight = 0\<rparr>
      | Some best \<Rightarrow>
          let ratio = snd best / (15 / 10);
              weight = (1 + cos (ratio * pi)) / 2
          in \<lparr>ki_x = positionX (fst best), ki_y = positionY (fst best),
              ki_zoom = zoomFactor (fst best), ki_weight = weight\<rparr>)"

subsection \<open>One simulation tick (the body of the loop of generateMotionPath)\<close>

definition updateInteraction :: "InteractionState \<Rightarrow> real \<times> real \<Rightarrow> InteractionState" where
  \<comment> \<open>"Update Interaction State": the dwell timer.\<close>
  "updateInteraction interaction currentMouse =
     (let dt = 1 / 60;
          moveDist = sqrt ((fst currentMouse - fst (lastPos interaction)) ^ 2
                         + (snd currentMouse - snd (lastPos interaction)) ^ 2)
      in interaction
           \<lparr>hoverTime := (if moveDist < 2 then hoverTime interaction + dt
                           else max 0 (hoverTime interaction - dt * 2)),
            lastPos := currentMouse\<rparr>)"

definition ruleTargetZoom :: "real \<Rightarrow> bool \<Rightarrow> real \<Rightarrow> real \<times> real \<Rightarrow> real \<Rightarrow> real \<Rightarrow> real" where
  \<comment> \<open>"B. Determine Target Zoom": rules 1 to 4, in the order of the source.\<close>
  "ruleTargetZoom velocity clicked hover futureMouse videoWidth videoHeight =
     (let targetZoom0 = BASE_ZOOM;
          speedFactor = min 1 (velocity / MAX_VELOCITY_ZOOM_PENALTY);
          targetZoom1 = targetZoom0 * (1 - speedFactor) + MIN_ZOOM * speedFactor;
          targetZoom2 = (if clicked then max targetZoom1 (17 / 10) else targetZoom1);
          targetZoom3 = (if hover > 2 then MAX_ZOOM else targetZoom2);
          edgeDistX = min (fst futureMouse) (videoWidth - fst futureMouse);
          edgeDistY = min (snd futureMouse) (videoHeight - snd futureMouse);
          edgeMargin = 200
      in if edgeDistX < edgeMargin \<or> edgeDistY < edgeMargin
         then let factor = min edgeDistX edgeDistY / edgeMargin
              in min targetZoom3 (MIN_ZOOM + (targetZoom3 - MIN_ZOOM) * factor)
         else targetZoom3)"

definition blendKeyframes ::
  "ZoomKeyframe list \<Rightarrow> real \<Rightarrow> real \<Rightarrow> real \<Rightarrow> real \<times> real \<times> real \<Rightarrow> real \<times> real \<times> real" where
  \<comment> \<open>"Override: Manual Keyframes": the target \<open>(x, y, zoom)\<close> pulled to the nearest keyframe.\<close>
  "blendKeyframes keyframes t videoWidth videoHeight target =
     (case target of (targetX, targetY, targetZoom) \<Rightarrow>
        if length keyframes > 0 then
          let kfInfluence = getKeyframeInfluence keyframes t in
          if ki_weight kfInfluence > 0 then
            let kfX = ki_x kfInfluence * videoWidth;
                kfY = ki_y kfInfluence * videoHeight;
                kfZ = ki_zoom kfInfluence
            in (targetX * (1 - ki_weight kfInfluence) + kfX * ki_weight kfInfluence,
                targetY * (1 - ki_weight kfInfluence) + kfY * ki_weight kfInfluence,
                targetZoom * (1 - ki_weight kfInfluence) + kfZ * ki_weight kfInfluence)
          else target
        else target)"

definition applyPhysics :: "PhysicsState \<Rightarrow> real \<times> real \<times> real \<Rightarrow> PhysicsState" where
  \<comment> \<open>"D. Apply Physics (Spring/Damper)": one Euler step of \<open>dt = 1/60\<close>.\<close>
  "applyPhysics state target =
     (case target of (targetX, targetY, targetZoom) \<Rightarrow>
        let dt = 1 / 60;
            ax = (- TENSION * (ps_x state - targetX) - FRICTION * ps_vx state) / MASS;
            ay = (- TENSION * (ps_y state - targetY) - FRICTION * ps_vy state) / MASS;
            az = (- TENSION * (ps_zoom state - targetZoom) - FRICTION * ps_vz state) / (MASS * 3);
            vx' = ps_vx state + ax * dt;
            vy' = ps_vy state + ay * dt;
            vz' = ps_vz state + az * dt
        in \<lparr>ps_x = ps_x state + vx' * dt, ps_y = ps_y state + vy' * dt,
            ps_zoom = ps_zoom state + vz' * dt, ps_vx = vx', ps_vy = vy', ps_vz = vz'\<rparr>)"

definition clampCentreX :: "real \<Rightarrow> real \<Rightarrow> PhysicsState \<Rightarrow> PhysicsState" where
  \<comment> \<open>"Clamp Camera Center", the two tests on \<open>x\<close>: a clamped axis loses its velocity.\<close>
  "clampCentreX videoWidth hw state =
     (let s1 = (if ps_x state - hw < 0 then state\<lparr>ps_x := hw, ps_vx := 0\<rparr> else state)
      in if ps_x s1 + hw > videoWidth then s1\<lparr>ps_x := videoWidth - hw, ps_vx := 0\<rparr> else s1)"

definition clampCentreY :: "real \<Rightarrow> real \<Rightarrow> PhysicsState \<Rightarrow> PhysicsState" where
  \<comment> \<open>"Clamp Camera Center", the two tests on \<open>y\<close>.\<close>
  "clampCentreY videoHeight hh state =
     (let s3 = (if ps_y state - hh < 0 then state\<lparr>ps_y := hh, ps_vy := 0\<rparr> else state)
      in if ps_y s3 + hh > videoHeight then s3\<lparr>ps_y := videoHeight - hh, ps_vy := 0\<rparr> else s3)"

definition hardConstraints :: "real \<Rightarrow> real \<Rightarrow> PhysicsState \<Rightarrow> sim_error + PhysicsState" where
  \<comment> \<open>"E. Hard Constraints": the centre is clamped with the zoom as integrated, the zoom
      is clamped to the absolute limits afterwards.\<close>
  "hardConstraints videoWidth videoHeight state =
     (if ps_zoom state = 0 then Inl NonFinite
      else
        let viewW = videoWidth / ps_zoom state;
            viewH = videoHeight / ps_zoom state;
            hw = viewW / 2;
            hh = viewH / 2;
            s2 = clampCentreX videoWidth hw state;
            s4 = clampCentreY videoHeight hh s2
        in Inr (s4\<lparr>ps_zoom := max 1 (min 5 (ps_zoom s4))\<rparr>))"

definition recordFrame :: "real \<Rightarrow> PhysicsState \<Rightarrow> PathEntry" where
  \<comment> \<open>"F. Record Frame"\<close>
  "recordFrame t state =
     \<lparr>pe_time = toFixed 3 t, pe_x = toFixed 1 (ps_x state),
      pe_y = toFixed 1 (ps_y state), pe_zoom = toFixed 3 (ps_zoom state)\<rparr>"

text \<open>
  What one tick computed: the look-ahead pointer, the measured velocity, whether a click
  is near, the dwell timer, the target zoom handed to the spring, the state as
  integrated, the state after the hard constraints, and the entry pushed to the path.
  Only \<open>emitted\<close> is part of the result of the source; the other fields name the
  locals of the loop body so that statements about a tick can speak of them.
\<close>

record Tick =
  tk_time :: real
  tk_futureMouse :: "real \<times> real"
  tk_velocity :: real
  tk_clicked :: bool
  tk_hoverTime :: real
  tk_targetZoom :: real
  integrated :: PhysicsState
  constrained :: PhysicsState
  emitted :: PathEntry

definition tick ::
  "MousePosition list \<Rightarrow> VideoSegment \<Rightarrow> real \<Rightarrow> real \<Rightarrow> real \<Rightarrow> PhysicsState \<Rightarrow> InteractionState
   \<Rightarrow> sim_error + PhysicsState \<times> InteractionState \<times> Tick" where
  "tick data segment videoWidth videoHeight t state interaction =
     (case sample data t of
        Inl e \<Rightarrow> Inl e
      | Inr currentMouse \<Rightarrow>
     (case sample data (t + LOOK_AHEAD) of
        Inl e \<Rightarrow> Inl e
      | Inr futureMouse \<Rightarrow>
     (case getVelocity data t of
        Inl e \<Rightarrow> Inl e
      | Inr velocity \<Rightarrow>
          let clicked = checkClick data t (5 / 10);
              interaction' = updateInteraction interaction currentMouse;
              targetZoom = ruleTargetZoom velocity clicked (hoverTime interaction')
                             futureMouse videoWidth videoHeight;
              target = blendKeyframes (zoomKeyframes segment) t videoWidth videoHeight
                         (fst futureMouse, snd futureMouse, targetZoom);
              state1 = applyPhysics state target
          in (case hardConstraints videoWidth videoHeight state1 of
                Inl e \<Rightarrow> Inl e
              | Inr state2 \<Rightarrow>
                  Inr (state2, interaction',
                       \<lparr>tk_time = t, tk_futureMouse = futureMouse, tk_velocity = velocity,
                        tk_clicked = clicked,
                        tk_hoverTime = hoverTime interaction', tk_targetZoom = snd (snd target),
                        integrated = state1, constrained = state2,
                        emitted = recordFrame t state2\<rparr>)))))"

subsection \<open>The simulation loop\<close>

text \<open>
  \<^verbatim>\<open>for (let t = segment.trimStart; t <= segment.trimEnd; t += dt)\<close> with \<open>dt = 1/60\<close>.
  In exact arithmetic the loop runs \<open>\<lfloor>(trimEnd - trimStart) * 60\<rfloor> + 1\<close> times when
  \<open>trimStart \<le> trimEnd\<close>, which is the termination measure.
\<close>

function simulate ::
  "MousePosition list \<Rightarrow> VideoSegment \<Rightarrow> real \<Rightarrow> real \<Rightarrow> real \<Rightarrow> PhysicsState \<Rightarrow> InteractionState
   \<Rightarrow> sim_error + Tick list" where
  "simulate data segment videoWidth videoHeight t state interaction =
     (if t \<le> trimEnd segment then
        (case tick data segment videoWidth videoHeight t state interaction of
           Inl e \<Rightarrow> Inl e
         | Inr r \<Rightarrow>
             (case simulate data segment videoWidth videoHeight (t + 1 / 60) (fst r) (fst (snd r)) of
                Inl e \<Rightarrow> Inl e
              | Inr ticks \<Rightarrow> Inr (snd (snd r) # ticks)))
      else Inr [])"
  by pat_completeness auto
termination
proof (relation "measure (\<lambda>(data, segment, videoWidth, videoHeight, t, state, interaction).
                           nat (\<lfloor>(trimEnd segment - t) * 60\<rfloor> + 1))", goal_cases)
  case 1
  show ?case by simp
next
  case (2 data segment videoWidth videoHeight t state interaction r)
  have "\<lfloor>(trimEnd segment - (t + 1 / 60)) * 60\<rfloor> = \<lfloor>(trimEnd segment - t) * 60 - 1\<rfloor>"
    by (simp add: algebra_simps)
  also have "\<dots> = \<lfloor>(trimEnd segment - t) * 60\<rfloor> - 1"
    by simp
  finally have step: "\<lfloor>(trimEnd segment - (t + 1 / 60)) * 60\<rfloor> = \<lfloor>(trimEnd segment - t) * 60\<rfloor> - 1" .
  from 2 have "0 \<le> \<lfloor>(trimEnd segment - t) * 60\<rfloor>"
    by simp
  with step show ?case by simp
qed

definition motionTrace ::
  "VideoSegment \<Rightarrow> MousePosition list \<Rightarrow> real \<Rightarrow> real \<Rightarrow> sim_error + Tick list" where
  \<comment> \<open>generateMotionPath up to the loop: filter, sort, the early return, the initial state.\<close>
  "motionTrace segment mousePositions videoWidth videoHeight =
     (let data = sort_key timestamp
                   (filter (\<lambda>p. timestamp p \<ge> trimStart segment - 1
                               \<and> timestamp p \<le> trimEnd segment + 1) mousePositions)
      in if length data < 2 then Inr []
         else
           let state = \<lparr>ps_x = videoWidth / 2, ps_y = videoHeight / 2, ps_zoom = 1,
                        ps_vx = 0, ps_vy = 0, ps_vz = 0\<rparr>;
               interaction = \<lparr>isClicking = False, clickTime = - 100, hoverTime = 0,
                              lastPos = (mp_x (data ! 0), mp_y (data ! 0))\<rparr>
           in simulate data segment videoWidth videoHeight (trimStart segment) state interaction)"

definition generateMotionPath ::
  "VideoSegment \<Rightarrow> MousePosition list \<Rightarrow> real \<Rightarrow> real \<Rightarrow> sim_error + PathEntry list" where
  "generateMotionPath segment mousePositions videoWidth videoHeight =
     (case motionTrace segment mousePositions videoWidth videoHeight of
        Inl e \<Rightarrow> Inl e
      | Inr ticks \<Rightarrow> Inr (map emitted ticks))"

section \<open>Frame compositor (VideoRenderer)\<close>

subsection \<open>Camera state resolution\<close>

definition DEFAULT_STATE :: ZoomKeyframe where
  "DEFAULT_STATE = \<lparr>time = 0, duration = 0, zoomFactor = 1, positionX = 5 / 10,
                     positionY = 5 / 10, easingType = Linear\<rparr>"

definition easeOutCubic :: "real \<Rightarrow> real" where
  "easeOutCubic v = 1 - (1 - v) ^ 3"

definition pathCamera :: "PathEntry list \<Rightarrow> real \<Rightarrow> sim_error + real \<times> real \<times> real" where
  \<comment> \<open>The dense path: the entries bracketing \<open>currentTime\<close>, interpolated linearly.
      Called on a non-empty path only.\<close>
  "pathCamera path currentTime =
     (case findIndex (\<lambda>p. pe_time p \<ge> currentTime) path of
        None \<Rightarrow> let last = path ! (length path - 1) in Inr (pe_x last, pe_y last, pe_zoom last)
      | Some idx \<Rightarrow>
          if idx = 0 then let first = path ! 0 in Inr (pe_x first, pe_y first, pe_zoom first)
          else
            let p1 = path ! (idx - 1);
                p2 = path ! idx
            in if pe_time p2 - pe_time p1 = 0 then Inl NonFinite
               else
                 let t = (currentTime - pe_time p1) / (pe_time p2 - pe_time p1)
                 in Inr (pe_x p1 + (pe_x p2 - pe_x p1) * t,
                         pe_y p1 + (pe_y p2 - pe_y p1) * t,
                         pe_zoom p1 + (pe_zoom p2 - pe_zoom p1) * t))"

definition influenceAt :: "InfluencePoint list \<Rightarrow> real \<Rightarrow> sim_error + real" where
  \<comment> \<open>The influence curve, cosine-eased between its points. Called on a non-empty list only.\<close>
  "influenceAt points currentTime =
     (case findIndex (\<lambda>p. ip_time p \<ge> currentTime) points of
        None \<Rightarrow> Inr (ip_value (points ! (length points - 1)))
      | Some iIdx \<Rightarrow>
          if iIdx = 0 then Inr (ip_value (points ! 0))
          else
            let ip1 = points ! (iIdx - 1);
                ip2 = points ! iIdx
            in if ip_time ip2 - ip_time ip1 = 0 then Inl NonFinite
               else
                 let it = (currentTime - ip_time ip1) / (ip_time ip2 - ip_time ip1);
                     cosT = (1 - cos (it * pi)) / 2
                 in Inr (ip_value ip1 * (1 - cosT) + ip_value ip2 * cosT))"

definition easedState ::
  "real \<Rightarrow> real \<Rightarrow> ZoomKeyframe \<Rightarrow> ZoomKeyframe \<Rightarrow> real \<Rightarrow> ZoomKeyframe" where
  \<comment> \<open>The state both transition branches return: \<open>startState\<close> moved towards
      \<open>nextKeyframe\<close> by the cubic ease-out of the clamped progress.\<close>
  "easedState currentTime dur startState nextKeyframe progress =
     (let easedProgress = easeOutCubic (min 1 (max 0 progress))
      in \<lparr>time = currentTime, duration = dur,
          zoomFactor = zoomFactor startState
                       + (zoomFactor nextKeyframe - zoomFactor startState) * easedProgress,
          positionX = positionX startState
                      + (positionX nextKeyframe - positionX startState) * easedProgress,
          positionY = positionY startState
                      + (positionY nextKeyframe - positionY startState) * easedProgress,
          easingType = EaseOut\<rparr>)"

definition keyframeFallback :: "ZoomKeyframe list \<Rightarrow> real \<Rightarrow> ZoomKeyframe" where
  \<comment> \<open>calculateCurrentZoomStateInternal from \<^verbatim>\<open>const sortedKeyframes\<close> on: the discrete
      keyframe resolution, reached when the segment has no dense path. The three
      \<^verbatim>\<open>if\<close>s of the source are the three tests below, in the same order.\<close>
  "keyframeFallback keyframes currentTime =
     (let sortedKeyframes = sort_key time keyframes in
      if length sortedKeyframes = 0 then DEFAULT_STATE
      else
        let nextKeyframe = find (\<lambda>k. time k > currentTime) sortedKeyframes;
            prevKeyframe = find (\<lambda>k. time k \<le> currentTime) (rev sortedKeyframes);
            TRANSITION_DURATION = 1
        in case (prevKeyframe, nextKeyframe) of
             (Some prev, Some next) \<Rightarrow>
               if time next - time prev \<le> TRANSITION_DURATION then
                 easedState currentTime (time next - time prev) prev next
                   ((currentTime - time prev) / (time next - time prev))
               else if time next - currentTime \<le> TRANSITION_DURATION then
                 easedState currentTime TRANSITION_DURATION prev next
                   ((TRANSITION_DURATION - (time next - currentTime)) / TRANSITION_DURATION)
               else prev
           | (None, Some next) \<Rightarrow>
               if time next - currentTime \<le> TRANSITION_DURATION then
                 easedState currentTime TRANSITION_DURATION DEFAULT_STATE next
                   ((TRANSITION_DURATION - (time next - currentTime)) / TRANSITION_DURATION)
               else DEFAULT_STATE
           | (Some prev, None) \<Rightarrow> prev
           | (None, None) \<Rightarrow> DEFAULT_STATE)"

text \<open>
  The renderer is a singleton with mutable fields; every method of the class runs on
  it as \<^verbatim>\<open>this\<close>. The fields below are those that the camera and cursor code of the
  class reads or writes between frames. \<^verbatim>\<open>DEFAULT_STATE\<close> is a \<^verbatim>\<open>readonly\<close> field with a
  literal initialiser that no method writes: it is the constant above.
\<close>

record RendererState =
  isDrawing :: bool
  lastDrawTime :: real
  latestElapsed :: real
  lastCalculatedState :: "ZoomKeyframe option"
  smoothedPositions :: "MousePosition list option"
  hasLoggedPositions :: bool
  currentSquishScale :: real
  lastHoldTime :: real

definition newRenderer :: RendererState where
  \<comment> \<open>The fields as their initialisers leave them.\<close>
  "newRenderer = \<lparr>isDrawing = False, lastDrawTime = 0, latestElapsed = 0,
                  lastCalculatedState = None, smoothedPositions = None,
                  hasLoggedPositions = False, currentSquishScale = 1, lastHoldTime = - 1\<rparr>"

definition calculateCurrentZoomStateInternal ::
  "RendererState \<Rightarrow> real \<Rightarrow> VideoSegment \<Rightarrow> real \<Rightarrow> real \<Rightarrow> sim_error + ZoomKeyframe" where
  \<comment> \<open>A method of the renderer: \<open>this\<close> is in scope, and the body reads nothing of it but
      \<^verbatim>\<open>this.DEFAULT_STATE\<close> and the pure \<^verbatim>\<open>this.easeOutCubic\<close>.\<close>
  "calculateCurrentZoomStateInternal this currentTime segment viewW viewH =
     (case smoothMotionPath segment of
        Some (p # ps) \<Rightarrow>
          let path = p # ps in
          (case pathCamera path currentTime of
             Inl e \<Rightarrow> Inl e
           | Inr cam0 \<Rightarrow>
               let scaled =
                     (case zoomInfluencePoints segment of
                        Some (q # qs) \<Rightarrow>
                          (case influenceAt (q # qs) currentTime of
                             Inl e \<Rightarrow> Inl e
                           | Inr influence \<Rightarrow>
                               (case cam0 of (cx, cy, cz) \<Rightarrow>
                                  Inr ((viewW / 2) + (cx - (viewW / 2)) * influence,
                                       (viewH / 2) + (cy - (viewH / 2)) * influence,
                                       1 + (cz - 1) * influence)))
                      | _ \<Rightarrow> Inr cam0)
               in (case scaled of
                     Inl e \<Rightarrow> Inl e
                   | Inr (cx, cy, cz) \<Rightarrow>
                       if viewW = 0 \<or> viewH = 0 then Inl NonFinite
                       else
                         let resultState =
                               \<lparr>time = currentTime, duration = 0, zoomFactor = cz,
                                positionX = cx / viewW, positionY = cy / viewH,
                                easingType = Linear\<rparr>
                         in if length (zoomKeyframes segment) > 0 then
                              (case nearestKeyframe (zoomKeyframes segment) currentTime of
                                 None \<Rightarrow> Inr resultState
                               | Some nearby \<Rightarrow>
                                   let ratio = snd nearby / (15 / 10);
                                       weight = (1 + cos (ratio * pi)) / 2
                                   in Inr (resultState
                                        \<lparr>zoomFactor := zoomFactor resultState * (1 - weight)
                                                         + zoomFactor (fst nearby) * weight,
                                         positionX := positionX resultState * (1 - weight)
                                                        + positionX (fst nearby) * weight,
                                         positionY := positionY resultState * (1 - weight)
                                                        + positionY (fst nearby) * weight\<rparr>))
                            else Inr resultState))
      | _ \<Rightarrow> Inr (keyframeFallback (zoomKeyframes segment) currentTime))"

definition calculateCurrentZoomState ::
  "RendererState \<Rightarrow> real \<Rightarrow> VideoSegment \<Rightarrow> real \<Rightarrow> real
   \<Rightarrow> sim_error + ZoomKeyframe \<times> RendererState" where
  "calculateCurrentZoomState this currentTime segment viewW viewH =
     (case calculateCurrentZoomStateInternal this currentTime segment viewW viewH of
        Inl e \<Rightarrow> Inl e
      | Inr state \<Rightarrow> Inr (state, this\<lparr>lastCalculatedState := Some state\<rparr>))"


subsection \<open>Cursor smoother\<close>

definition catmullRomInterpolate :: "real \<Rightarrow> real \<Rightarrow> real \<Rightarrow> real \<Rightarrow> real \<Rightarrow> real" where
  "catmullRomInterpolate p0 p1 p2 p3 t =
     (let t2 = t * t;
          t3 = t2 * t
      in (5 / 10) * ((2 * p1) + (- p0 + p2) * t
                     + (2 * p0 - 5 * p1 + 4 * p2 - p3) * t2
                     + (- p0 + 3 * p1 - 3 * p2 + p3) * t3))"

definition resampleWindow ::
  "real \<Rightarrow> MousePosition \<Rightarrow> MousePosition \<Rightarrow> MousePosition \<Rightarrow> MousePosition \<Rightarrow> MousePosition list" where
  \<comment> \<open>The inner loop over \<open>frame\<close>: the samples generated between \<open>p1\<close> and \<open>p2\<close>. The
      number of frames is the ceiling of a product of doubles.\<close>
  "resampleWindow targetFps p0 p1 p2 p3 =
     (let segmentDuration = double_of (timestamp p2 - timestamp p1);
          numFrames = \<lceil>double_of (segmentDuration * targetFps)\<rceil>
      in map (\<lambda>frame.
                let t = real frame / real_of_int numFrames
                in \<lparr>mp_x = catmullRomInterpolate (mp_x p0) (mp_x p1) (mp_x p2) (mp_x p3) t,
                    mp_y = catmullRomInterpolate (mp_y p0) (mp_y p1) (mp_y p2) (mp_y p3) t,
                    timestamp = timestamp p1 + (segmentDuration * t),
                    isClicked = (isClicked p1 \<or> isClicked p2),
                    cursor_type = (if t < 5 / 10 then cursor_type p1 else cursor_type p2)\<rparr>)
             [0 ..< nat numFrames])"

definition resample :: "real \<Rightarrow> MousePosition list \<Rightarrow> MousePosition list" where
  \<comment> \<open>The outer loop \<^verbatim>\<open>for (i = 0; i < positions.length - 3; i++)\<close>.\<close>
  "resample targetFps positions =
     concat (map (\<lambda>i. resampleWindow targetFps (positions ! i) (positions ! (i + 1))
                         (positions ! (i + 2)) (positions ! (i + 3)))
                 [0 ..< length positions - 3])"

definition gaussianPass :: "nat \<Rightarrow> MousePosition list \<Rightarrow> MousePosition list" where
  \<comment> \<open>One pass of the weighted moving average; \<open>j\<close> runs from \<open>max(0, i - windowSize)\<close>
      to \<open>min(length - 1, i + windowSize)\<close> inclusive.\<close>
  "gaussianPass windowSize currentSmoothed =
     map (\<lambda>i.
            let js = [i - windowSize ..< Suc (min (length currentSmoothed - 1) (i + windowSize))];
                weight = (\<lambda>j. exp (- \<bar>real i - real j\<bar> * ((5 / 10) / real windowSize)));
                sumX = sum_list (map (\<lambda>j. mp_x (currentSmoothed ! j) * weight j) js);
                sumY = sum_list (map (\<lambda>j. mp_y (currentSmoothed ! j) * weight j) js);
                totalWeight = sum_list (map weight js)
            in \<lparr>mp_x = sumX / totalWeight, mp_y = sumY / totalWeight,
                timestamp = timestamp (currentSmoothed ! i),
                isClicked = isClicked (currentSmoothed ! i),
                cursor_type = cursor_type (currentSmoothed ! i)\<rparr>)
         [0 ..< length currentSmoothed]"

fun deadband :: "real \<Rightarrow> MousePosition \<Rightarrow> MousePosition list \<Rightarrow> MousePosition list" where
  \<comment> \<open>The last loop, from \<open>i = 1\<close>: a position is kept when it moved more than the threshold
      from the last significant one or when the click state changed.\<close>
  "deadband threshold lastSignificantPos [] = []"
| "deadband threshold lastSignificantPos (current # rest) =
     (let distance = sqrt ((mp_x current - mp_x lastSignificantPos) ^ 2
                         + (mp_y current - mp_y lastSignificantPos) ^ 2)
      in if distance > threshold \<or> isClicked current \<noteq> isClicked lastSignificantPos
         then current # deadband threshold current rest
         else lastSignificantPos\<lparr>timestamp := timestamp current\<rparr>
              # deadband threshold lastSignificantPos rest)"

datatype smooth_error =
  UndefinedSample   \<comment> \<open>the array returned is \<^verbatim>\<open>[undefined]\<close>: nothing was resampled\<close>

definition smoothMousePositions ::
  "nat option \<Rightarrow> MousePosition list \<Rightarrow> real \<Rightarrow> smooth_error + MousePosition list" where
  \<comment> \<open>The first argument is \<^verbatim>\<open>this.backgroundConfig?.cursorSmoothness\<close>, a whole number of
      steps; \<open>None\<close> and \<open>0\<close> fall back to 5.\<close>
  "smoothMousePositions cursorSmoothness positions targetFps =
     (if length positions < 4 then Inr positions
      else
        let smoothed = resample targetFps positions;
            windowSize = ((case cursorSmoothness of None \<Rightarrow> 5 | Some c \<Rightarrow> if c = 0 then 5 else c) * 2) + 1;
            passes = nat \<lceil>real windowSize / 2\<rceil>;
            currentSmoothed = (gaussianPass windowSize ^^ passes) smoothed;
            threshold = (5 / 10) / (real windowSize / 2)
        in case currentSmoothed of
             [] \<Rightarrow> Inl UndefinedSample
           | lastSignificantPos # rest \<Rightarrow>
               Inr (lastSignificantPos # deadband threshold lastSignificantPos rest))"

section \<open>Export driver (VideoExporter)\<close>

subsection \<open>Output geometry\<close>

record DimensionPreset =
  dp_label :: string
  dp_width :: int
  dp_height :: int

definition DIMENSION_PRESETS :: "string \<rightharpoonup> DimensionPreset" where
  "DIMENSION_PRESETS =
     [''original'' \<mapsto> \<lparr>dp_label = ''Original Size'', dp_width = 0, dp_height = 0\<rparr>,
      ''1080p'' \<mapsto> \<lparr>dp_label = ''Full HD (1080p)'', dp_width = 1920, dp_height = 1080\<rparr>,
      ''720p'' \<mapsto> \<lparr>dp_label = ''HD (720p)'', dp_width = 1280, dp_height = 720\<rparr>]"

definition lookupPreset :: "string \<Rightarrow> DimensionPreset" where
  \<comment> \<open>\<^verbatim>\<open>DIMENSION_PRESETS[options.dimensions] || DIMENSION_PRESETS['1080p']\<close>\<close>
  "lookupPreset dims =
     (case DIMENSION_PRESETS dims of
        Some preset \<Rightarrow> preset
      | None \<Rightarrow> \<lparr>dp_label = ''Full HD (1080p)'', dp_width = 1920, dp_height = 1080\<rparr>)"

definition makeEven :: "int \<Rightarrow> int" where
  \<comment> \<open>\<^verbatim>\<open>if (w % 2 !== 0) w--\<close>\<close>
  "makeEven w = (if w mod 2 \<noteq> 0 then w - 1 else w)"

record VideoElement =
  el_videoWidth :: nat
  el_videoHeight :: nat
  el_src :: string

definition croppedSize :: "VideoElement option \<Rightarrow> CropRect option \<Rightarrow> int \<times> int" where
  \<comment> \<open>"Calculate CROPPED dimensions": \<open>(croppedW, croppedH)\<close>, from the raw size of the
      video (1920 x 1080 when it is missing or zero) and the crop (the whole frame when
      the segment has none).\<close>
  "croppedSize video cropRect =
     (let vidW = (case video of None \<Rightarrow> 1920
                  | Some v \<Rightarrow> if el_videoWidth v = 0 then 1920 else el_videoWidth v);
          vidH = (case video of None \<Rightarrow> 1080
                  | Some v \<Rightarrow> if el_videoHeight v = 0 then 1080 else el_videoHeight v);
          cr = (case cropRect of
                  None \<Rightarrow> \<lparr>crop_x = 0, crop_y = 0, crop_width = 1, crop_height = 1\<rparr>
                | Some c \<Rightarrow> c)
      in (js_round (double_of (real vidW * crop_width cr)),
          js_round (double_of (real vidH * crop_height cr))))"

definition croppedExportSize ::
  "string \<Rightarrow> VideoElement option \<Rightarrow> CropRect option \<Rightarrow> (int \<times> int) option" where
  \<comment> \<open>videoExporter.ts, the exporter that knows the crop: \<open>(width, height)\<close> as sent to the
      backend. \<open>None\<close>: the width is not a finite number (the cropped height rounds to 0).\<close>
  "croppedExportSize dims video cropRect =
     (let preset = lookupPreset dims;
          croppedW = fst (croppedSize video cropRect);
          croppedH = snd (croppedSize video cropRect)
      in if dp_height preset = 0 then Some (makeEven croppedW, makeEven croppedH)
         else if croppedH = 0 then None
         else
           let height = dp_height preset;
               width = js_round (double_of (real_of_int height
                                              * double_of (real_of_int croppedW / real_of_int croppedH)))
           in Some (makeEven width, makeEven height))"

definition presetExportSize :: "string \<Rightarrow> VideoElement \<Rightarrow> int \<times> int" where
  \<comment> \<open>The streaming exporter: the size is the preset's, or the source's made even when
      the preset has a zero.\<close>
  "presetExportSize dims sourceVideo =
     (let preset = lookupPreset dims
      in if dp_width preset = 0 \<or> dp_height preset = 0
         then (makeEven (int (el_videoWidth sourceVideo)), makeEven (int (el_videoHeight sourceVideo)))
         else (dp_width preset, dp_height preset))"

subsection \<open>exportAndDownload\<close>

text \<open>
  An export is an \<^verbatim>\<open>async\<close> method of a singleton. The model returns the way the promise
  settles (\<open>Inl\<close>: rejected with that error), the fields of the exporter afterwards and
  the effects issued on the outside world, in order. What the outside world answers
  (a fetch failing, the backend refusing, a cancel arriving) is an argument.
\<close>

record ExportConfig =
  cfg_size :: "(int \<times> int) option"
  cfg_framerate :: nat
  cfg_audioPath :: string
  cfg_trimStart :: real
  cfg_duration :: real
  cfg_speed :: real
  cfg_videoData :: bool
  cfg_audioData :: bool

datatype effect =
  ConsoleLog
| ConsoleError
| FetchBlob string
| InvokeStartExportServer ExportConfig
| CreateVideoElement string
| AppendChild
| LoadVideo
| RemoveChild
| ResizeCanvases int int
| SeekVideo real
| DrawFrame real
| EncodeJpeg
| PostFrame nat
| ReportProgress real
| PostFinish nat

datatype export_error =
  AlreadyInProgress      \<comment> \<open>\<^verbatim>\<open>Error('Export already in progress')\<close>\<close>
| MissingElements        \<comment> \<open>\<^verbatim>\<open>Error('Missing required elements')\<close>\<close>
| PrepareFailed          \<comment> \<open>\<^verbatim>\<open>Error('Failed to prepare video for export')\<close>\<close>
| LoadFailed             \<comment> \<open>the off-screen video element fired \<^verbatim>\<open>onerror\<close>\<close>
| BackendFailed          \<comment> \<open>\<^verbatim>\<open>invoke('start_export_server', ...)\<close> rejected\<close>

record ExportOptions =
  opt_video :: "VideoElement option"
  opt_segment :: "VideoSegment option"
  opt_canvas :: bool
  opt_tempCanvas :: bool
  opt_dimensions :: string
  opt_speed :: "real option"
  opt_audioFilePath :: string
  opt_audio :: "string option"

definition isBlobUrl :: "string \<Rightarrow> bool" where
  \<comment> \<open>\<^verbatim>\<open>src && src.startsWith('blob:')\<close>\<close>
  "isBlobUrl url = (take 5 url = ''blob:'')"

definition makeConfig :: "ExportOptions \<Rightarrow> (int \<times> int) option \<Rightarrow> bool \<Rightarrow> bool \<Rightarrow> ExportConfig" where
  "makeConfig options outSize videoData audioData =
     (let start = (case opt_segment options of None \<Rightarrow> 0 | Some sg \<Rightarrow> trimStart sg);
          end' = (case opt_segment options of None \<Rightarrow> 0 | Some sg \<Rightarrow> trimEnd sg)
      in \<lparr>cfg_size = outSize, cfg_framerate = 60, cfg_audioPath = opt_audioFilePath options,
          cfg_trimStart = start, cfg_duration = end' - start,
          cfg_speed = (case opt_speed options of None \<Rightarrow> 1 | Some sp \<Rightarrow> sp),
          cfg_videoData = videoData, cfg_audioData = audioData\<rparr>)"

record NativeExporter =
  isExporting :: bool

record NativeEnv =
  videoFetchOk :: bool
  audioFetchOk :: bool
  invokeOk :: bool

definition exportAndDownload ::
  "NativeEnv \<Rightarrow> NativeExporter \<Rightarrow> ExportOptions
   \<Rightarrow> (export_error + unit) \<times> NativeExporter \<times> effect list" where
  \<comment> \<open>videoExporter.ts: the whole export is handed to the native backend in one call.\<close>
  "exportAndDownload env this options =
     (if isExporting this then (Inl AlreadyInProgress, this, [])
      else
        let this1 = this\<lparr>isExporting := True\<rparr>;
            outSize = croppedExportSize (opt_dimensions options) (opt_video options)
                     (case opt_segment options of None \<Rightarrow> None | Some sg \<Rightarrow> crop sg);
            logs = [ConsoleLog, ConsoleLog, ConsoleLog, ConsoleLog, ConsoleLog];
            videoBlob = (case opt_video options of None \<Rightarrow> None
                         | Some v \<Rightarrow> if isBlobUrl (el_src v) then Some (el_src v) else None);
            audioBlob = (case opt_audio options of None \<Rightarrow> None
                         | Some a \<Rightarrow> if isBlobUrl a \<and> opt_audioFilePath options = [] then Some a
                                     else None);
            videoEffects = (case videoBlob of None \<Rightarrow> [] | Some u \<Rightarrow> [ConsoleLog, FetchBlob u])
        in if videoBlob \<noteq> None \<and> \<not> videoFetchOk env
           then (Inl PrepareFailed, this1, logs @ videoEffects @ [ConsoleError])
           else
             let audioEffects =
                   (case audioBlob of None \<Rightarrow> []
                    | Some u \<Rightarrow> [ConsoleLog, FetchBlob u] @ (if audioFetchOk env then [] else [ConsoleError]));
                 config = makeConfig options outSize (videoBlob \<noteq> None)
                            (audioBlob \<noteq> None \<and> audioFetchOk env);
                 before = logs @ videoEffects @ audioEffects
                          @ [ConsoleLog, InvokeStartExportServer config]
             in if invokeOk env
                then (Inr (), this1\<lparr>isExporting := False\<rparr>, before @ [ConsoleLog])
                else (Inl BackendFailed, this1\<lparr>isExporting := False\<rparr>, before @ [ConsoleError]))"

record StreamingExporter =
  se_isExporting :: bool
  se_shouldStop :: bool

record StreamEnv =
  loadOk :: bool
  serverPort :: "nat option"          \<comment> \<open>\<open>None\<close>: start_export_server rejected\<close>
  seeked :: "nat \<Rightarrow> bool"            \<comment> \<open>the \<^verbatim>\<open>seeked\<close> event of frame \<open>n\<close> fires\<close>
  frameThrows :: "nat \<Rightarrow> bool"       \<comment> \<open>drawing or uploading frame \<open>n\<close> throws\<close>
  blobNull :: "nat \<Rightarrow> bool"          \<comment> \<open>\<^verbatim>\<open>canvas.toBlob\<close> gives null for frame \<open>n\<close>\<close>
  stopRequested :: "nat \<Rightarrow> bool"     \<comment> \<open>\<^verbatim>\<open>cancel()\<close> ran before the loop test of frame \<open>n\<close>\<close>
  finishOk :: bool

partial_function (option) renderLoop ::
  "StreamEnv \<Rightarrow> VideoSegment \<Rightarrow> nat \<Rightarrow> real \<Rightarrow> nat \<Rightarrow> real \<Rightarrow> effect list
   \<Rightarrow> (bool \<times> bool \<times> effect list) option" where
  \<comment> \<open>"3. Render Loop". The result is (an exception reached the catch, the value of
      \<open>shouldStop\<close> at the exit, the effects); \<open>None\<close>: the loop never ends (a seek that
      never completes, or a step that does not advance).\<close>
  "renderLoop env sg port step n currentTime acc =
     (if currentTime < trimEnd sg \<and> \<not> stopRequested env n then
        if \<not> seeked env n then None
        else if frameThrows env n
          then Some (True, stopRequested env (Suc n),
                     acc @ [SeekVideo currentTime, DrawFrame currentTime])
        else
          let progress = ((currentTime + step - trimStart sg) / (trimEnd sg - trimStart sg)) * 100
          in renderLoop env sg port step (Suc n) (currentTime + step)
               (acc @ [SeekVideo currentTime, DrawFrame currentTime, EncodeJpeg]
                    @ (if blobNull env n then [] else [PostFrame port])
                    @ [ReportProgress (min progress 99)])
      else Some (False, stopRequested env n, acc))"

definition exportAndDownloadStreaming ::
  "StreamEnv \<Rightarrow> StreamingExporter \<Rightarrow> ExportOptions
   \<Rightarrow> ((export_error + unit) \<times> StreamingExporter \<times> effect list) option" where
  \<comment> \<open>The exporter that renders every frame itself and posts it to the local server.\<close>
  "exportAndDownloadStreaming env this options =
     (if se_isExporting this then Some (Inl AlreadyInProgress, this, [])
      else
        let this1 = this\<lparr>se_isExporting := True, se_shouldStop := False\<rparr> in
        case (opt_video options, opt_segment options) of
          (Some sourceVideo, Some sg) \<Rightarrow>
            if \<not> opt_canvas options \<or> \<not> opt_tempCanvas options
            then Some (Inl MissingElements, this1, [])
            else
              let setup = [CreateVideoElement (el_src sourceVideo), AppendChild, LoadVideo] in
              if \<not> loadOk env then Some (Inl LoadFailed, this1, setup)
              else
                let outSize = presetExportSize (opt_dimensions options) sourceVideo;
                    speed = (case opt_speed options of None \<Rightarrow> 1 | Some sp \<Rightarrow> sp);
                    config = \<lparr>cfg_size = Some outSize, cfg_framerate = 60,
                              cfg_audioPath = opt_audioFilePath options,
                              cfg_trimStart = trimStart sg,
                              cfg_duration = trimEnd sg - trimStart sg,
                              cfg_speed = speed, cfg_videoData = False, cfg_audioData = False\<rparr>;
                    started = setup @ [InvokeStartExportServer config]
                in (case serverPort env of
                     None \<Rightarrow>
                       Some (Inl BackendFailed, this1\<lparr>se_isExporting := False\<rparr>,
                             started @ [ConsoleError, RemoveChild])
                   | Some port \<Rightarrow>
                       (case renderLoop env sg port ((1 / 60) * speed) 0 (trimStart sg)
                               (started @ [ResizeCanvases (fst outSize) (snd outSize)]) of
                          None \<Rightarrow> None
                        | Some (threw, stopped, effects) \<Rightarrow>
                            let closing =
                                  (if threw then [ConsoleError]
                                   else [PostFinish port] @ (if finishOk env then [] else [ConsoleError]))
                            in Some (Inr (),
                                     this1\<lparr>se_isExporting := False, se_shouldStop := stopped\<rparr>,
                                     effects @ closing @ [RemoveChild])))
        | _ \<Rightarrow> Some (Inl MissingElements, this1, []))"

section \<open>Notions of the specification\<close>

text \<open>
  The keyframes bracketing a time, as the specification speaks of them: the latest
  keyframe at or before \<open>t\<close> and the earliest keyframe after \<open>t\<close>.
\<close>

definition bracketsBefore :: "ZoomKeyframe list \<Rightarrow> real \<Rightarrow> ZoomKeyframe \<Rightarrow> bool" where
  "bracketsBefore kfs t p \<longleftrightarrow>
     p \<in> set kfs \<and> time p \<le> t \<and> (\<forall>k\<in>set kfs. time k \<le> t \<longrightarrow> time k \<le> time p)"

definition bracketsAfter :: "ZoomKeyframe list \<Rightarrow> real \<Rightarrow> ZoomKeyframe \<Rightarrow> bool" where
  "bracketsAfter kfs t n \<longleftrightarrow>
     n \<in> set kfs \<and> t < time n \<and> (\<forall>k\<in>set kfs. t < time k \<longrightarrow> time n \<le> time k)"

definition viewportInside :: "real \<Rightarrow> real \<Rightarrow> real \<Rightarrow> real \<Rightarrow> real \<Rightarrow> bool" where
  \<comment> \<open>The viewport of size \<open>(W / z, H / z)\<close> centred at \<open>(cx, cy)\<close> lies within the frame
      \<open>[0, W] x [0, H]\<close>.\<close>
  "viewportInside W H cx cy z \<longleftrightarrow>
     0 \<le> cx - (W / z) / 2 \<and> cx + (W / z) / 2 \<le> W \<and> 0 \<le> cy - (H / z) / 2 \<and> cy + (H / z) / 2 \<le> H"

definition smoothingWindow :: "nat option \<Rightarrow> nat" where
  \<comment> \<open>The \<open>windowSize\<close> of smoothMousePositions for a given \<open>cursorSmoothness\<close>.\<close>
  "smoothingWindow cursorSmoothness =
     ((case cursorSmoothness of None \<Rightarrow> 5 | Some c \<Rightarrow> if c = 0 then 5 else c) * 2) + 1"

definition smoothingReach :: "nat option \<Rightarrow> nat" where
  \<comment> \<open>How far from an end of the trace the cut of the averaging window is felt: the
      number of passes times the window size.\<close>
  "smoothingReach cursorSmoothness =
     nat \<lceil>real (smoothingWindow cursorSmoothness) / 2\<rceil> * smoothingWindow cursorSmoothness"

section \<open>Concrete scenarios\<close>

definition segShort :: "real \<Rightarrow> ZoomKeyframe list \<Rightarrow> VideoSegment" where
  \<comment> \<open>A segment so short that the simulation runs one tick, at \<open>t0\<close>.\<close>
  "segShort t0 kfs = \<lparr>trimStart = t0, trimEnd = t0 + 1 / 100, zoomKeyframes = kfs, smoothMotionPath = None,
                 zoomInfluencePoints = None, crop = None\<rparr>"

definition pointerAt :: "real \<Rightarrow> real \<Rightarrow> real \<Rightarrow> bool \<Rightarrow> MousePosition" where
  "pointerAt t px py c = \<lparr>mp_x = px, mp_y = py, timestamp = t, isClicked = c, cursor_type = ''default''\<rparr>"

definition kfHuge :: ZoomKeyframe where
  \<comment> \<open>A keyframe far beyond any zoom a user would set: it moves the camera at once.\<close>
  "kfHuge = \<lparr>time = 0, duration = 0, zoomFactor = 1945, positionX = 1 / 2, positionY = 1 / 2,
             easingType = EaseOut\<rparr>"

definition tickStill :: Tick where
  \<comment> \<open>The first tick for a pointer resting at (200, 540) on a 1920 x 1080 frame.\<close>
  "tickStill = \<lparr>tk_time = 0, tk_futureMouse = (200, 540), tk_velocity = 0,
              tk_clicked = False, tk_hoverTime = 1 / 60,
              tk_targetZoom = 7 / 5,
              integrated =
                \<lparr>ps_x = 51745 / 54, ps_y = 540, ps_zoom = 3241 / 3240,
                   ps_vx = - (950 / 9), ps_vy = 0, ps_vz = 1 / 54\<rparr>,
              constrained =
                \<lparr>ps_x = 3110400 / 3241, ps_y = 540, ps_zoom = 3241 / 3240,
                   ps_vx = 0, ps_vy = 0, ps_vz = 1 / 54\<rparr>,
              emitted =
                \<lparr>pe_time = 0, pe_x = 9597 / 10, pe_y = 540, pe_zoom = 1\<rparr>\<rparr>"

definition tickFast :: "bool \<Rightarrow> Tick" where
  \<comment> \<open>The tick at 0.2 s for a pointer crossing the frame at 1500 px/s, with and without
      a click at 0 s.\<close>
  "tickFast c = (if c then
          \<lparr>tk_time = 1 / 5, tk_futureMouse = (800, 540),
              tk_velocity = 1500, tk_clicked = True, tk_hoverTime = 0,
              tk_targetZoom = 17 / 10,
              integrated =
                \<lparr>ps_x = 25910 / 27, ps_y = 540, ps_zoom = 12967 / 12960,
                   ps_vx = - (200 / 9), ps_vy = 0, ps_vz = 7 / 216\<rparr>,
              constrained =
                \<lparr>ps_x = 25910 / 27, ps_y = 540, ps_zoom = 12967 / 12960,
                   ps_vx = - (200 / 9), ps_vy = 0, ps_vz = 7 / 216\<rparr>,
              emitted =
                \<lparr>pe_time = 1 / 5, pe_x = 4798 / 5, pe_y = 540,
                   pe_zoom = 1001 / 1000\<rparr>\<rparr>
     else \<lparr>tk_time = 1 / 5, tk_futureMouse = (800, 540),
              tk_velocity = 1500, tk_clicked = False, tk_hoverTime = 0,
              tk_targetZoom = 1,
              integrated =
                \<lparr>ps_x = 25910 / 27, ps_y = 540, ps_zoom = 1,
                   ps_vx = - (200 / 9), ps_vy = 0, ps_vz = 0\<rparr>,
              constrained =
                \<lparr>ps_x = 960, ps_y = 540, ps_zoom = 1, ps_vx = 0, ps_vy = 0,
                   ps_vz = 0\<rparr>,
              emitted =
                \<lparr>pe_time = 1 / 5, pe_x = 960, pe_y = 540, pe_zoom = 1\<rparr>\<rparr>)"

definition kfA :: ZoomKeyframe where
  "kfA = \<lparr>time = 0, duration = 0, zoomFactor = 1, positionX = 1 / 2, positionY = 1 / 2,
          easingType = EaseOut\<rparr>"

definition kfB :: ZoomKeyframe where
  "kfB = \<lparr>time = 3, duration = 0, zoomFactor = 2, positionX = 1 / 4, positionY = 3 / 4,
          easingType = EaseOut\<rparr>"

definition kfC :: ZoomKeyframe where
  "kfC = \<lparr>time = 1 / 2, duration = 0, zoomFactor = 3, positionX = 1 / 2, positionY = 1 / 2,
          easingType = EaseOut\<rparr>"

definition segK :: "ZoomKeyframe list \<Rightarrow> VideoSegment" where
  \<comment> \<open>A segment of four seconds with the given keyframes and no dense path.\<close>
  "segK kfs = \<lparr>trimStart = 0, trimEnd = 4, zoomKeyframes = kfs, smoothMotionPath = None,
               zoomInfluencePoints = None, crop = None\<rparr>"

definition clickTrace :: "MousePosition list" where
  \<comment> \<open>A pointer resting at the centre of a 1920 x 1080 frame, clicked at 1 s only.\<close>
  "clickTrace = [pointerAt 0 960 540 False, pointerAt 1 960 540 True, pointerAt 2 960 540 False]"

definition segClick :: VideoSegment where
  "segClick = \<lparr>trimStart = 0, trimEnd = 2, zoomKeyframes = [], smoothMotionPath = None,
                zoomInfluencePoints = None, crop = None\<rparr>"

definition tickClick :: Tick where
  \<comment> \<open>The tick at 1.25 s of \<open>clickTrace\<close> when the simulation starts there: a quarter
      of a second after the click.\<close>
  "tickClick = \<lparr>tk_time = 5 / 4, tk_futureMouse = (960, 540), tk_velocity = 0,
              tk_clicked = True, tk_hoverTime = 1 / 60,
              tk_targetZoom = 17 / 10,
              integrated =
                \<lparr>ps_x = 960, ps_y = 540, ps_zoom = 12967 / 12960, ps_vx = 0,
                   ps_vy = 0, ps_vz = 7 / 216\<rparr>,
              constrained =
                \<lparr>ps_x = 960, ps_y = 540, ps_zoom = 12967 / 12960, ps_vx = 0,
                   ps_vy = 0, ps_vz = 7 / 216\<rparr>,
              emitted =
                \<lparr>pe_time = 5 / 4, pe_x = 960, pe_y = 540,
                   pe_zoom = 1001 / 1000\<rparr>\<rparr>"

definition linearTrace :: "MousePosition list" where
  \<comment> \<open>Five samples at 128 Hz along a straight line, 10 px apart. The timestamps, their
      differences and \<open>120 / 128\<close> are doubles.\<close>
  "linearTrace = [pointerAt 0 0 0 False, pointerAt (1 / 128) 10 0 False, pointerAt (2 / 128) 20 0 False,
                  pointerAt (3 / 128) 30 0 False, pointerAt (4 / 128) 40 0 False]"

definition nominalTrace :: "MousePosition list" where
  \<comment> \<open>Five samples at a nominal 120 Hz, 10 px apart: the timestamps are the doubles
      nearest to \<open>k / 120\<close>.\<close>
  "nominalTrace = [pointerAt (double_of 0) 0 0 False, pointerAt (double_of (1 / 120)) 10 0 False,
                   pointerAt (double_of (2 / 120)) 20 0 False, pointerAt (double_of (3 / 120)) 30 0 False,
                   pointerAt (double_of (4 / 120)) 40 0 False]"

definition longTrace :: "MousePosition list" where
  \<comment> \<open>Sixteen samples at 128 Hz along the line through (0, 0) and (10, 5).\<close>
  "longTrace = map (\<lambda>i. pointerAt (real i / 128) (10 * real i) (5 * real i) False) [0 ..< 16]"

section \<open>Envelopes of the zoom spring\<close>

text \<open>
  Bounds used in the proofs. While the target zoom is at most 1.7 and the zoom at least
  1, one step of the zoom spring raises its velocity by at most
  \<open>(25 / (9 * 60)) * 0.7 = 7 / 216\<close> and never above 0.7; \<open>velocityEnvelope n\<close> bounds the
  velocity and \<open>1 + zoomEnvelope n\<close> the zoom after \<open>n\<close> ticks from rest at zoom 1.
\<close>

fun velocityEnvelope :: "nat \<Rightarrow> real" where
  "velocityEnvelope 0 = 0"
| "velocityEnvelope (Suc n) = min (7 / 10) (velocityEnvelope n + 7 / 216)"

fun zoomEnvelope :: "nat \<Rightarrow> real" where
  "zoomEnvelope 0 = 0"
| "zoomEnvelope (Suc n) = zoomEnvelope n + velocityEnvelope (Suc n) / 60"

section \<open>Properties of the rounding to doubles\<close>

lemma roundEven_close: "\<bar>real_of_int (roundEven v) - v\<bar> \<le> 1 / 2"
  unfolding roundEven_def Let_def by (auto simp: abs_if) linarith+

lemma roundEven_int: "roundEven (real_of_int n) = n"
  by (simp add: roundEven_def)

lemma powr_powi: "(2 :: real) powr real_of_int k = 2 powi k"
  by (simp add: powr_real_of_int')

lemma binade_iff:
  assumes "v \<noteq> 0"
  shows "\<lfloor>log 2 \<bar>v\<bar>\<rfloor> = e \<longleftrightarrow> 2 powi e \<le> \<bar>v\<bar> \<and> \<bar>v\<bar> < 2 powi (e + 1)"
proof -
  have "0 < \<bar>v\<bar>" using assms by simp
  then have "\<lfloor>log 2 \<bar>v\<bar>\<rfloor> = e
      \<longleftrightarrow> 2 powr real_of_int e \<le> \<bar>v\<bar> \<and> \<bar>v\<bar> < 2 powr real_of_int (e + 1)"
    using floor_log_eq_powr_iff [of "\<bar>v\<bar>" 2 e] by simp
  then show ?thesis by (simp only: powr_powi)
qed

lemma binade_bounds:
  assumes "v \<noteq> 0"
  shows "2 powi \<lfloor>log 2 \<bar>v\<bar>\<rfloor> \<le> \<bar>v\<bar>" "\<bar>v\<bar> < 2 powi (\<lfloor>log 2 \<bar>v\<bar>\<rfloor> + 1)"
  using binade_iff [OF assms, of "\<lfloor>log 2 \<bar>v\<bar>\<rfloor>"] by simp_all

lemma binade_eq:
  assumes "2 powi e \<le> \<bar>v\<bar>" and "\<bar>v\<bar> < 2 powi (e + 1)"
  shows "\<lfloor>log 2 \<bar>v\<bar>\<rfloor> = e"
proof -
  have "(0 :: real) < 2 powi e" by simp
  with assms(1) have "0 < \<bar>v\<bar>" by linarith
  then have "v \<noteq> 0" by simp
  from binade_iff [OF this, of e] assms show ?thesis by simp
qed

text \<open>
  How a double is computed from its binade: used to evaluate \<open>double_of\<close> on numerals.
\<close>

lemma double_of_eval:
  assumes "2 powi e \<le> \<bar>v\<bar>" and "\<bar>v\<bar> < 2 powi (e + 1)"
  shows "double_of v = real_of_int (roundEven (v / 2 powi (e - 52))) * 2 powi (e - 52)"
proof -
  have "(0 :: real) < 2 powi e" by simp
  with assms(1) have "0 < \<bar>v\<bar>" by linarith
  then have "v \<noteq> 0" by simp
  then show ?thesis
    by (simp add: double_of_def Let_def binade_eq [OF assms])
qed

text \<open>The relative error of one rounding is at most \<open>2^-53\<close>.\<close>

lemma double_of_error: "\<bar>double_of v - v\<bar> \<le> \<bar>v\<bar> / 2 ^ 53"
proof (cases "v = 0")
  case True
  then show ?thesis by (simp add: double_of_def)
next
  case False
  define e where "e = \<lfloor>log 2 \<bar>v\<bar>\<rfloor>"
  define u :: real where "u = 2 powi (e - 52)"
  have u: "0 < u" by (simp add: u_def)
  have d: "double_of v = real_of_int (roundEven (v / u)) * u"
    using False by (simp add: double_of_def Let_def e_def u_def)
  have "\<bar>real_of_int (roundEven (v / u)) - v / u\<bar> \<le> 1 / 2" by (rule roundEven_close)
  then have "\<bar>real_of_int (roundEven (v / u)) - v / u\<bar> * u \<le> (1 / 2) * u"
    using u by (intro mult_right_mono) simp_all
  moreover have "\<bar>real_of_int (roundEven (v / u)) - v / u\<bar> * u = \<bar>double_of v - v\<bar>"
  proof -
    have "(real_of_int (roundEven (v / u)) - v / u) * u = double_of v - v"
      using u by (simp add: d algebra_simps)
    then have "\<bar>(real_of_int (roundEven (v / u)) - v / u) * u\<bar> = \<bar>double_of v - v\<bar>"
      by (simp only:)
    then show ?thesis using u by (simp add: abs_mult)
  qed
  ultimately have "\<bar>double_of v - v\<bar> \<le> u / 2" by simp
  also have "u / 2 = 2 powi e / 2 ^ 53"
    by (simp add: u_def power_int_diff)
  also have "\<dots> \<le> \<bar>v\<bar> / 2 ^ 53"
    using binade_bounds(1) [OF False] by (simp add: e_def divide_right_mono)
  finally show ?thesis .
qed

text \<open>Every integer below \<open>2^53\<close> in magnitude is a double.\<close>

lemma double_of_int:
  assumes "\<bar>n\<bar> < 2 ^ 53"
  shows "double_of (real_of_int n) = real_of_int n"
proof (cases "n = 0")
  case True
  then show ?thesis by (simp add: double_of_def)
next
  case False
  define v where "v = real_of_int n"
  define e where "e = \<lfloor>log 2 \<bar>v\<bar>\<rfloor>"
  have v0: "v \<noteq> 0" using False by (simp add: v_def)
  have "2 powi e \<le> \<bar>v\<bar>" using binade_bounds(1) [OF v0] by (simp add: e_def)
  moreover have "\<bar>v\<bar> < 2 powi 53" using assms
    by (simp add: v_def)
  ultimately have "(2 :: real) powi e < 2 powi 53" by linarith
  then have "e < 53" by (intro power_int_le_imp_less_exp [of 2 e 53]) simp_all
  then have e52: "0 \<le> 52 - e" by simp
  have "v / 2 powi (e - 52) = v * 2 powi (52 - e)"
    by (simp add: power_int_diff field_simps)
  also have "\<dots> = real_of_int (n * 2 ^ nat (52 - e))"
    using e52 by (simp add: v_def power_int_def)
  finally have q: "v / 2 powi (e - 52) = real_of_int (n * 2 ^ nat (52 - e))" .
  have "double_of v = real_of_int (roundEven (v / 2 powi (e - 52))) * 2 powi (e - 52)"
    using v0 by (simp add: double_of_def Let_def e_def)
  also have "\<dots> = v / 2 powi (e - 52) * 2 powi (e - 52)"
    unfolding q roundEven_int ..
  also have "\<dots> = v" by simp
  finally show ?thesis by (simp add: v_def)
qed

lemma double_of_nat:
  assumes "n < 2 ^ 53"
  shows "double_of (real n) = real n"
proof -
  have "int n < 2 ^ 53" using assms by (metis of_nat_less_iff of_nat_numeral of_nat_power)
  then have "\<bar>int n\<bar> < 2 ^ 53" by simp
  from double_of_int [OF this] show ?thesis by simp
qed

text \<open>
  Rounding is positive on positive numbers and never crosses a double.
\<close>

lemma roundEven_le:
  assumes "x \<le> real_of_int N"
  shows "roundEven x \<le> N"
proof -
  have "\<lfloor>x\<rfloor> \<le> N" using assms by (simp add: floor_le_iff) 
  moreover have "\<lfloor>x\<rfloor> + 1 \<le> N" if "1 / 2 \<le> x - real_of_int \<lfloor>x\<rfloor>"
  proof -
    from that have "real_of_int \<lfloor>x\<rfloor> < x" by linarith
    with assms have "real_of_int \<lfloor>x\<rfloor> < real_of_int N" by linarith
    then show ?thesis by simp
  qed
  ultimately show ?thesis
    unfolding roundEven_def Let_def by auto
qed

lemma roundEven_near:
  assumes "real_of_int n \<le> x" and "x < real_of_int n + 1 / 2"
  shows "roundEven x = n"
proof -
  have "\<lfloor>x\<rfloor> = n" using assms by linarith
  with assms show ?thesis by (simp add: roundEven_def Let_def)
qed

lemma double_of_pos:
  assumes "0 < v"
  shows "0 < double_of v"
proof -
  define e where "e = \<lfloor>log 2 \<bar>v\<bar>\<rfloor>"
  have v0: "v \<noteq> 0" using assms by simp
  have "2 powi e \<le> v" using binade_bounds(1) [OF v0] assms by (simp add: e_def)
  then have "2 powi e / 2 powi (e - 52) \<le> v / 2 powi (e - 52)"
    by (intro divide_right_mono) simp_all
  moreover have "(2 :: real) powi e / 2 powi (e - 52) = 2 ^ 52"
    by (simp add: power_int_diff)
  ultimately have "(2 :: real) ^ 52 \<le> v / 2 powi (e - 52)" by (simp only:)
  moreover have "(1 :: real) \<le> 2 ^ 52" by simp
  ultimately have "1 \<le> v / 2 powi (e - 52)" by linarith
  then have "1 \<le> \<lfloor>v / 2 powi (e - 52)\<rfloor>" by simp
  moreover have "\<lfloor>v / 2 powi (e - 52)\<rfloor> \<le> roundEven (v / 2 powi (e - 52))"
    by (simp add: roundEven_def Let_def)
  ultimately have "0 < roundEven (v / 2 powi (e - 52))" by linarith
  then show ?thesis
    using v0 by (simp add: double_of_def Let_def e_def)
qed

lemma double_of_le_double:
  assumes "0 < d" and "d \<le> c" and "double_of c = c"
  shows "double_of d \<le> c"
proof -
  define ed where "ed = \<lfloor>log 2 \<bar>d\<bar>\<rfloor>"
  define ec where "ec = \<lfloor>log 2 \<bar>c\<bar>\<rfloor>"
  have c: "0 < c" using assms(1,2) by linarith
  have "log 2 d \<le> log 2 c" using assms(1,2) by simp
  then have le: "ed \<le> ec" using assms(1) c by (simp add: ed_def ec_def floor_mono)
  define M where "M = roundEven (c / 2 powi (ec - 52))"
  have cM: "c = real_of_int M * 2 powi (ec - 52)"
    using assms(3) c by (simp add: double_of_def Let_def ec_def M_def)
  have "(2 :: real) powi (ec - 52) / 2 powi (ed - 52) = 2 powi (ec - ed)"
    by (simp add: power_int_diff)
  also have "\<dots> = real_of_int (2 ^ nat (ec - ed))"
    using le by (simp add: power_int_def)
  finally have r: "(2 :: real) powi (ec - 52) / 2 powi (ed - 52) = real_of_int (2 ^ nat (ec - ed))" .
  have "c / 2 powi (ed - 52) = real_of_int M * (2 powi (ec - 52) / 2 powi (ed - 52))"
    by (subst cM) simp
  also have "\<dots> = real_of_int (M * 2 ^ nat (ec - ed))"
    by (simp only: r of_int_mult)
  finally have cN: "c / 2 powi (ed - 52) = real_of_int (M * 2 ^ nat (ec - ed))" .
  have "d / 2 powi (ed - 52) \<le> c / 2 powi (ed - 52)"
    using assms(2) by (intro divide_right_mono) simp_all
  then have "roundEven (d / 2 powi (ed - 52)) \<le> M * 2 ^ nat (ec - ed)"
    unfolding cN by (rule roundEven_le)
  then have "real_of_int (roundEven (d / 2 powi (ed - 52))) \<le> real_of_int (M * 2 ^ nat (ec - ed))"
    by (simp only: of_int_le_iff)
  then have "real_of_int (roundEven (d / 2 powi (ed - 52))) * 2 powi (ed - 52)
               \<le> c / 2 powi (ed - 52) * 2 powi (ed - 52)"
    unfolding cN by (intro mult_right_mono) simp_all
  then show ?thesis
    using assms(1) by (simp add: double_of_def Let_def ed_def)
qed

text \<open>
  The frame count of the resampler at its target rate of 120 Hz: a spacing of at most
  \<open>1 / 120\<close> s counts as one frame. The double nearest to \<open>1 / 120\<close> lies below it, so the
  rounded spacing times 120 stays below 1.
\<close>

lemma dense_at_120:
  assumes "0 < d" and "d \<le> 1 / 120"
  shows "\<lceil>double_of (double_of d * 120)\<rceil> = 1"
proof -
  define c :: real where "c = 4803839602528529 / 2 ^ 59"
  have cc: "double_of c = c"
    unfolding c_def by (subst double_of_eval [where e = "- 7"]) (simp_all add: roundEven_def Let_def)
  have one: "double_of 1 = 1" using double_of_int [of 1] by simp
  have dc: "double_of d \<le> c"
  proof (cases "d \<le> c")
    case True
    from double_of_le_double [OF assms(1) True cc] show ?thesis .
  next
    case False
    then have lo: "c < d" by simp
    have b: "2 powi (- 7) \<le> \<bar>d\<bar>" "\<bar>d\<bar> < 2 powi (- 7 + 1)"
      using lo assms by (simp_all add: c_def)
    have "real_of_int 4803839602528529 \<le> d / 2 powi (- 7 - 52)"
      "d / 2 powi (- 7 - 52) < real_of_int 4803839602528529 + 1 / 2"
      using lo assms(2) by (simp_all add: c_def field_simps)
    then have "roundEven (d / 2 powi (- 7 - 52)) = 4803839602528529"
      by (rule roundEven_near)
    then have "double_of d = c"
      unfolding double_of_eval [OF b] by (simp add: c_def)
    then show ?thesis by simp
  qed
  have dp: "0 < double_of d" using assms(1) by (rule double_of_pos)
  define v where "v = double_of d * 120"
  have v: "0 < v" "v \<le> 1"
    using dp dc by (simp_all add: v_def c_def)
  from double_of_pos [OF v(1)] double_of_le_double [OF v one]
  have "0 < double_of v" "double_of v \<le> 1" .
  then have "\<lceil>double_of v\<rceil> = 1" by (simp add: ceiling_eq_iff)
  then show ?thesis by (simp only: v_def)
qed

text \<open>
  A quotient of doubles multiplied by a double, as \<^verbatim>\<open>height * (croppedW / croppedH)\<close>:
  two roundings, so the result is within a relative \<open>2^-51\<close> of the exact value.
\<close>

lemma double_product_close:
  "\<bar>double_of (c * double_of r) - c * r\<bar> \<le> \<bar>c * r\<bar> / 2 ^ 51"
proof -
  define u where "u = \<bar>c * r\<bar> / 2 ^ 53"
  have u: "0 \<le> u" by (simp add: u_def)
  have "\<bar>c * double_of r - c * r\<bar> = \<bar>c\<bar> * \<bar>double_of r - r\<bar>"
    by (simp add: abs_mult flip: right_diff_distrib)
  also have "\<dots> \<le> \<bar>c\<bar> * (\<bar>r\<bar> / 2 ^ 53)"
    by (intro mult_left_mono double_of_error) simp
  also have "\<dots> = u" by (simp add: u_def abs_mult)
  finally have a: "\<bar>c * double_of r - c * r\<bar> \<le> u" .
  then have "\<bar>c * double_of r\<bar> \<le> \<bar>c * r\<bar> + u" by linarith
  then have "\<bar>c * double_of r\<bar> / 2 ^ 53 \<le> (\<bar>c * r\<bar> + u) / 2 ^ 53"
    by (intro divide_right_mono) simp_all
  also have "\<dots> = u + u / 2 ^ 53" by (simp add: u_def add_divide_distrib)
  also have "\<dots> \<le> u + u"
  proof -
    have "u / 2 ^ 53 \<le> u / 1" using u by (intro divide_left_mono) simp_all
    then show ?thesis by simp
  qed
  finally have b: "\<bar>c * double_of r\<bar> / 2 ^ 53 \<le> u + u" .
  have "\<bar>double_of (c * double_of r) - c * double_of r\<bar> \<le> \<bar>c * double_of r\<bar> / 2 ^ 53"
    by (rule double_of_error)
  with a b have "\<bar>double_of (c * double_of r) - c * r\<bar> \<le> 4 * u" by linarith
  also have "4 * u = \<bar>c * r\<bar> / 2 ^ 51" by (simp add: u_def)
  finally show ?thesis .
qed

lemma double_of_16_9: "double_of (1080 * double_of (16 / 9)) = 1920"
proof -
  have a: "double_of (16 / 9) = 8006399337547548 / 2 ^ 52"
    by (subst double_of_eval [where e = 0]) (simp_all add: roundEven_def Let_def)
  have b: "double_of (1080 * (8006399337547548 / 2 ^ 52)) = 1920"
    by (subst double_of_eval [where e = 10]) (simp_all add: roundEven_def Let_def)
  show ?thesis unfolding a by (rule b)
qed

section \<open>Properties of the camera path generator\<close>

lemmas PHYSICS_defs =
  TENSION_def FRICTION_def MASS_def LOOK_AHEAD_def MAX_VELOCITY_ZOOM_PENALTY_def
  BASE_ZOOM_def MIN_ZOOM_def MAX_ZOOM_def

declare simulate.simps [simp del]

lemma tickE:
  assumes "tick data seg W H t st ia = Inr (st', ia', tk)"
  obtains cm fm v where
    "sample data t = Inr cm" "sample data (t + LOOK_AHEAD) = Inr fm" "getVelocity data t = Inr v"
    "ia' = updateInteraction ia cm"
    "hardConstraints W H (integrated tk) = Inr st'"
    "integrated tk = applyPhysics st (blendKeyframes (zoomKeyframes seg) t W H
        (fst fm, snd fm, ruleTargetZoom v (checkClick data t (5 / 10)) (hoverTime ia') fm W H))"
    "tk_targetZoom tk = snd (snd (blendKeyframes (zoomKeyframes seg) t W H
        (fst fm, snd fm, ruleTargetZoom v (checkClick data t (5 / 10)) (hoverTime ia') fm W H)))"
    "tk_time tk = t" "tk_futureMouse tk = fm" "tk_velocity tk = v"
    "tk_clicked tk = checkClick data t (5 / 10)" "tk_hoverTime tk = hoverTime ia'"
    "constrained tk = st'" "emitted tk = recordFrame t st'"
  using assms by (auto simp: tick_def Let_def split: sum.splits)

lemma simulate_cases:
  assumes "simulate data seg W H t st ia = Inr tks"
  shows "(\<not> t \<le> trimEnd seg \<and> tks = [])
       \<or> (t \<le> trimEnd seg \<and>
          (\<exists>st' ia' tk tks'. tick data seg W H t st ia = Inr (st', ia', tk)
                \<and> simulate data seg W H (t + 1 / 60) st' ia' = Inr tks' \<and> tks = tk # tks'))"
  using assms by (subst (asm) simulate.simps) (auto split: if_splits sum.splits)

lemma simulate_ticks:
  assumes "simulate data seg W H t st ia = Inr tks" "tk \<in> set tks"
  shows "\<exists>t' st0 ia0 st1 ia1. tick data seg W H t' st0 ia0 = Inr (st1, ia1, tk)"
  using assms
proof (induction tks arbitrary: t st ia)
  case Nil
  then show ?case by simp
next
  case (Cons a tks)
  from simulate_cases [OF Cons.prems(1)]
  obtain st' ia' where hd: "tick data seg W H t st ia = Inr (st', ia', a)"
    and tl: "simulate data seg W H (t + 1 / 60) st' ia' = Inr tks"
    by auto
  show ?case
  proof (cases "tk = a")
    case True
    with hd show ?thesis by blast
  next
    case False
    with Cons.prems(2) have "tk \<in> set tks" by simp
    from Cons.IH [OF tl this] show ?thesis .
  qed
qed

lemma motionTrace_ticks:
  assumes "motionTrace seg mps W H = Inr tks" "tk \<in> set tks"
  shows "\<exists>data t' st0 ia0 st1 ia1. tick data seg W H t' st0 ia0 = Inr (st1, ia1, tk)"
  using assms simulate_ticks
  by (fastforce simp: motionTrace_def Let_def split: if_splits)

lemma clampCentreX_facts:
  "ps_zoom (clampCentreX W hw s) = ps_zoom s" "ps_vz (clampCentreX W hw s) = ps_vz s"
  "ps_y (clampCentreX W hw s) = ps_y s"
  "2 * hw \<le> W \<Longrightarrow> 0 \<le> ps_x (clampCentreX W hw s) - hw \<and> ps_x (clampCentreX W hw s) + hw \<le> W"
  by (simp_all add: clampCentreX_def Let_def)

lemma clampCentreY_facts:
  "ps_zoom (clampCentreY H hh s) = ps_zoom s" "ps_vz (clampCentreY H hh s) = ps_vz s"
  "ps_x (clampCentreY H hh s) = ps_x s"
  "2 * hh \<le> H \<Longrightarrow> 0 \<le> ps_y (clampCentreY H hh s) - hh \<and> ps_y (clampCentreY H hh s) + hh \<le> H"
  by (simp_all add: clampCentreY_def Let_def)

lemma hardConstraints_zoom:
  assumes "hardConstraints W H s = Inr s'"
  shows "ps_zoom s' = max 1 (min 5 (ps_zoom s))" "ps_vz s' = ps_vz s"
  using assms
  by (auto simp: hardConstraints_def Let_def clampCentreX_facts clampCentreY_facts split: if_splits)

lemma hardConstraints_viewport:
  assumes "hardConstraints W H s = Inr s'" "0 \<le> W" "0 \<le> H" "1 \<le> ps_zoom s" "ps_zoom s \<le> 5"
  shows "viewportInside W H (ps_x s') (ps_y s') (ps_zoom s')"
proof -
  let ?z = "ps_zoom s"
  have z: "ps_zoom s' = ?z" using hardConstraints_zoom(1) [OF assms(1)] assms(4,5) by simp
  have w: "W / ?z \<le> W" using assms(2,4) by (simp add: divide_le_eq mult_left_mono [of 1 ?z W, simplified])
  have h: "H / ?z \<le> H" using assms(3,4) by (simp add: divide_le_eq mult_left_mono [of 1 ?z H, simplified])
  define hw where "hw = W / ?z / 2"
  define hh where "hh = H / ?z / 2"
  have hw2: "2 * hw \<le> W" and hh2: "2 * hh \<le> H" using w h by (simp_all add: hw_def hh_def)
  from assms(1,4) have s': "s' = (clampCentreY H hh (clampCentreX W hw s))
                                  \<lparr>ps_zoom := max 1 (min 5 (ps_zoom (clampCentreY H hh (clampCentreX W hw s))))\<rparr>"
    by (simp add: hardConstraints_def Let_def hw_def hh_def split: if_splits)
  have "ps_x s' = ps_x (clampCentreX W hw s)" "ps_y s' = ps_y (clampCentreY H hh (clampCentreX W hw s))"
    by (simp_all add: s' clampCentreY_facts)
  with clampCentreX_facts(4) [OF hw2, of s] clampCentreY_facts(4) [OF hh2, of "clampCentreX W hw s"]
  have "0 \<le> ps_x s' - hw \<and> ps_x s' + hw \<le> W \<and> 0 \<le> ps_y s' - hh \<and> ps_y s' + hh \<le> H"
    by simp
  then show ?thesis by (simp add: viewportInside_def z hw_def hh_def)
qed

lemma toFixed_close: "\<bar>toFixed d v - v\<bar> \<le> 1 / (2 * 10 ^ d)"
proof -
  have pos: "(0::real) < 10 ^ d" by simp
  have key: "\<bar>real_of_int \<lfloor>u * 10 ^ d + 1 / 2\<rfloor> / 10 ^ d - u\<bar> \<le> 1 / (2 * 10 ^ d)" for u :: real
  proof -
    let ?n = "real_of_int \<lfloor>u * 10 ^ d + 1 / 2\<rfloor>"
    have "?n \<le> u * 10 ^ d + 1 / 2" "u * 10 ^ d + 1 / 2 < ?n + 1" by linarith+
    then have "\<bar>?n - u * 10 ^ d\<bar> \<le> 1 / 2" by linarith
    then have "\<bar>?n - u * 10 ^ d\<bar> / 10 ^ d \<le> (1 / 2) / 10 ^ d"
      by (rule divide_right_mono) simp
    moreover have "(?n - u * 10 ^ d) / 10 ^ d = ?n / 10 ^ d - u"
      by (simp add: diff_divide_distrib)
    then have "\<bar>?n / 10 ^ d - u\<bar> = \<bar>(?n - u * 10 ^ d) / 10 ^ d\<bar>"
      by (simp only:)
    then have "\<bar>?n / 10 ^ d - u\<bar> = \<bar>?n - u * 10 ^ d\<bar> / 10 ^ d"
      by (simp only: abs_divide) simp
    ultimately show ?thesis by simp
  qed
  show ?thesis
  proof (cases "v < 0")
    case True
    have "\<bar>toFixed d v - v\<bar> = \<bar>real_of_int \<lfloor>(- v) * 10 ^ d + 1 / 2\<rfloor> / 10 ^ d - (- v)\<bar>"
      using True by (simp add: toFixed_def)
    with key [of "- v"] show ?thesis by simp
  next
    case False
    then show ?thesis using key [of v] by (simp add: toFixed_def)
  qed
qed

lemma toFixed3_range:
  assumes "1 \<le> v" "v \<le> 5"
  shows "1 \<le> toFixed 3 v" "toFixed 3 v \<le> 5"
proof -
  have "1000 \<le> \<lfloor>v * 1000 + 1 / 2\<rfloor>" using assms(1) by (simp add: le_floor_iff)
  moreover have "\<lfloor>v * 1000 + 1 / 2\<rfloor> \<le> 5000" using assms(2) by (simp add: floor_le_iff)
  ultimately show "1 \<le> toFixed 3 v" "toFixed 3 v \<le> 5"
    using assms(1) by (simp_all add: toFixed_def)
qed


lemmas sim_defs = generateMotionPath_def motionTrace_def tick_def sample_def getVelocity_def checkClick_def
  updateInteraction_def ruleTargetZoom_def blendKeyframes_def getKeyframeInfluence_def nearestKeyframe_def
  applyPhysics_def hardConstraints_def clampCentreX_def clampCentreY_def recordFrame_def
  toFixed_def PHYSICS_defs Let_def

lemma trace_still:
  "motionTrace (segShort 0 []) [pointerAt 0 200 540 False, pointerAt 1 200 540 False] 1920 1080
     = Inr [tickStill]"
  by (simp add: sim_defs segShort_def pointerAt_def simulate.simps tickStill_def)

lemma trace_fast:
  "motionTrace (segShort (1 / 5) []) [pointerAt 0 200 540 c, pointerAt 1 1700 540 False] 1920 1080
     = Inr [tickFast c]"
  by (cases c) (simp_all add: sim_defs segShort_def pointerAt_def simulate.simps tickFast_def)

text \<open>
  C1 (as amended). For every tick of a generated path (positive video dimensions): the
  emitted zoom lies in \<open>[1, 5]\<close>, the absolute limits of the clamp (\<open>MAX_ZOOM = 2\<close> bounds
  the targets of the rules, not the path); the position clamp never changes the zoom, so
  the zoom after the hard constraints is the integrated zoom clamped to \<open>[1, 5]\<close>;
  whenever the integrated zoom is within \<open>[1, 5]\<close>, the viewport of the camera state
  after the hard constraints lies inside the frame; and the emitted entry is that state
  rounded, within 0.05 of it in \<open>x\<close> and \<open>y\<close> and within 0.0005 in zoom.
\<close>

theorem motion_path_bounds:
  assumes "motionTrace seg mps W H = Inr ticks" and "0 < W" and "0 < H" and "tk \<in> set ticks"
  shows "generateMotionPath seg mps W H = Inr (map emitted ticks)
       \<and> 1 \<le> pe_zoom (emitted tk) \<and> pe_zoom (emitted tk) \<le> 5
       \<and> ps_zoom (constrained tk) = max 1 (min 5 (ps_zoom (integrated tk)))
       \<and> (1 \<le> ps_zoom (integrated tk) \<and> ps_zoom (integrated tk) \<le> 5 \<longrightarrow>
            viewportInside W H (ps_x (constrained tk)) (ps_y (constrained tk)) (ps_zoom (constrained tk)))
       \<and> \<bar>pe_x (emitted tk) - ps_x (constrained tk)\<bar> \<le> 1 / 20
       \<and> \<bar>pe_y (emitted tk) - ps_y (constrained tk)\<bar> \<le> 1 / 20
       \<and> \<bar>pe_zoom (emitted tk) - ps_zoom (constrained tk)\<bar> \<le> 1 / 2000"
proof -
  from motionTrace_ticks [OF assms(1,4)]
  obtain data t st ia st' ia' where tk: "tick data seg W H t st ia = Inr (st', ia', tk)"
    by blast
  from tk have hc: "hardConstraints W H (integrated tk) = Inr st'"
    and con: "constrained tk = st'" and em: "emitted tk = recordFrame t st'"
    by (auto elim: tickE)
  have zoom: "ps_zoom st' = max 1 (min 5 (ps_zoom (integrated tk)))"
    by (rule hardConstraints_zoom(1) [OF hc])
  then have range: "1 \<le> ps_zoom st'" "ps_zoom st' \<le> 5" by simp_all
  have view: "viewportInside W H (ps_x st') (ps_y st') (ps_zoom st')"
    if "1 \<le> ps_zoom (integrated tk)" "ps_zoom (integrated tk) \<le> 5"
    using hardConstraints_viewport [OF hc _ _ that] assms(2,3) by simp
  have path: "generateMotionPath seg mps W H = Inr (map emitted ticks)"
    using assms(1) by (simp add: generateMotionPath_def)
  have rx: "\<bar>pe_x (emitted tk) - ps_x st'\<bar> \<le> 1 / 20"
    using toFixed_close [of 1 "ps_x st'"] by (simp add: em recordFrame_def)
  have ry: "\<bar>pe_y (emitted tk) - ps_y st'\<bar> \<le> 1 / 20"
    using toFixed_close [of 1 "ps_y st'"] by (simp add: em recordFrame_def)
  have rz: "\<bar>pe_zoom (emitted tk) - ps_zoom st'\<bar> \<le> 1 / 2000"
    using toFixed_close [of 3 "ps_zoom st'"] by (simp add: em recordFrame_def)
  have ez: "1 \<le> pe_zoom (emitted tk)" "pe_zoom (emitted tk) \<le> 5"
    using toFixed3_range [OF range] by (simp_all add: em recordFrame_def)
  from path ez zoom view rx ry rz show ?thesis by (simp add: con)
qed

theorem motion_path_bounds_witness:
  "motionTrace (segShort 0 []) [pointerAt 0 200 540 False, pointerAt 1 200 540 False] 1920 1080
     = Inr [tickStill]
   \<and> (0 :: real) < 1920 \<and> (0 :: real) < 1080 \<and> tickStill \<in> set [tickStill]
   \<and> 1 \<le> ps_zoom (integrated tickStill) \<and> ps_zoom (integrated tickStill) \<le> 5
   \<and> generateMotionPath (segShort 0 []) [pointerAt 0 200 540 False, pointerAt 1 200 540 False]
        1920 1080 = Inr [emitted tickStill]
   \<and> 1 \<le> pe_zoom (emitted tickStill) \<and> pe_zoom (emitted tickStill) \<le> 5
   \<and> viewportInside 1920 1080 (ps_x (constrained tickStill)) (ps_y (constrained tickStill))
        (ps_zoom (constrained tickStill))"
proof -
  have w: "(0 :: real) < 1920" and h: "(0 :: real) < 1080" by simp_all
  have m: "tickStill \<in> set [tickStill]" by simp
  have z: "1 \<le> ps_zoom (integrated tickStill) \<and> ps_zoom (integrated tickStill) \<le> 5"
    by (simp add: tickStill_def)
  from motion_path_bounds [OF trace_still w h m] z trace_still
  show ?thesis by (simp add: tickStill_def)
qed

text \<open>
  The claim as stated fails in three ways. A pointer resting at (200, 540): the first
  entry is x = 959.7 at zoom 1.000, whose viewport starts at -0.3 (the entry is rounded
  after the clamp). A keyframe of zoom 1945: the first entry has zoom 2.5, above
  \<open>MAX_ZOOM\<close>. A pointer 200 px left of the frame: the integrated zoom falls below 1,
  the centre is clamped for that zoom and the zoom is raised to 1 afterwards, so the
  viewport of the state itself leaves the frame.
\<close>

theorem motion_path_bounds_counterexample:
  "generateMotionPath (segShort 0 []) [pointerAt 0 200 540 False, pointerAt 1 200 540 False]
      1920 1080 = Inr [\<lparr>pe_time = 0, pe_x = 9597 / 10, pe_y = 540, pe_zoom = 1\<rparr>]
   \<and> \<not> viewportInside 1920 1080 (9597 / 10) 540 1
   \<and> generateMotionPath (segShort 0 [kfHuge]) [pointerAt 0 960 540 False, pointerAt 1 960 540 False]
      1920 1080 = Inr [\<lparr>pe_time = 0, pe_x = 960, pe_y = 540, pe_zoom = 5 / 2\<rparr>]
   \<and> MAX_ZOOM < 5 / 2
   \<and> map_sum id (map constrained)
        (motionTrace (segShort 0 []) [pointerAt 0 (- 200) 540 False, pointerAt 1 (- 200) 540 False]
           1920 1080)
      = Inr [\<lparr>ps_x = 3108480 / 3239, ps_y = 1748520 / 3239, ps_zoom = 1,
               ps_vx = 0, ps_vy = 0, ps_vz = - (1 / 54)\<rparr>]
   \<and> \<not> viewportInside 1920 1080 (3108480 / 3239) (1748520 / 3239) 1"
  by (simp add: sim_defs segShort_def pointerAt_def simulate.simps kfHuge_def viewportInside_def)


lemma blendKeyframes_far:
  assumes "\<forall>k\<in>set kfs. \<bar>time k - t\<bar> \<ge> 15 / 10"
  shows "blendKeyframes kfs t W H target = target"
proof -
  have "filter (\<lambda>item. snd item < 15 / 10) (map (\<lambda>kf. (kf, \<bar>time kf - t\<bar>)) kfs) = []"
    using assms by (auto simp: filter_empty_conv)
  then have "nearestKeyframe kfs t = None"
    by (simp add: nearestKeyframe_def)
  then show ?thesis
    by (simp add: blendKeyframes_def getKeyframeInfluence_def Let_def split: prod.split)
qed

lemma ruleTargetZoom_fast:
  assumes "velocity \<ge> MAX_VELOCITY_ZOOM_PENALTY" "\<not> clicked" "hover \<le> 2"
  shows "ruleTargetZoom velocity clicked hover fm W H = MIN_ZOOM"
proof -
  have "min 1 (velocity / MAX_VELOCITY_ZOOM_PENALTY) = 1"
    using assms(1) by (simp add: MAX_VELOCITY_ZOOM_PENALTY_def)
  then show ?thesis
    using assms(2,3) by (simp add: ruleTargetZoom_def Let_def MIN_ZOOM_def BASE_ZOOM_def)
qed

lemma ruleTargetZoom_click:
  assumes "clicked" "200 \<le> fst fm" "fst fm \<le> W - 200" "200 \<le> snd fm" "snd fm \<le> H - 200"
  shows "ruleTargetZoom velocity clicked hover fm W H \<ge> 17 / 10"
proof -
  have "\<not> min (fst fm) (W - fst fm) < 200" "\<not> min (snd fm) (H - snd fm) < 200"
    using assms(2-5) by simp_all
  then show ?thesis
    using assms(1) by (simp add: ruleTargetZoom_def Let_def MAX_ZOOM_def max_def)
qed

text \<open>
  C4 (as amended). At a tick whose measured velocity is at or above
  \<open>MAX_VELOCITY_ZOOM_PENALTY\<close>, the velocity rule alone yields \<open>MIN_ZOOM\<close>, and the target
  zoom of the tick equals \<open>MIN_ZOOM\<close> when no later rule applies: no click within the
  half-second window, a dwell time of at most 2 s, and no keyframe within 1.5 s (the
  edge rule cannot lower \<open>MIN_ZOOM\<close>).
\<close>

theorem velocity_rule:
  assumes "motionTrace seg mps W H = Inr ticks" and "tk \<in> set ticks"
    and "tk_velocity tk \<ge> MAX_VELOCITY_ZOOM_PENALTY"
    and "\<not> tk_clicked tk" and "tk_hoverTime tk \<le> 2"
    and "\<forall>k\<in>set (zoomKeyframes seg). \<bar>time k - tk_time tk\<bar> \<ge> 15 / 10"
  shows "tk_targetZoom tk = MIN_ZOOM"
proof -
  from motionTrace_ticks [OF assms(1,2)]
  obtain data t st ia st' ia' where "tick data seg W H t st ia = Inr (st', ia', tk)"
    by blast
  then obtain fm v where
    tz: "tk_targetZoom tk = snd (snd (blendKeyframes (zoomKeyframes seg) t W H
        (fst fm, snd fm, ruleTargetZoom v (checkClick data t (5 / 10)) (hoverTime ia') fm W H)))"
    and f: "tk_time tk = t" "tk_velocity tk = v" "tk_clicked tk = checkClick data t (5 / 10)"
           "tk_hoverTime tk = hoverTime ia'"
    by (auto elim: tickE)
  from assms(6) f(1) have far: "\<forall>k\<in>set (zoomKeyframes seg). \<bar>time k - t\<bar> \<ge> 15 / 10"
    by simp
  have "ruleTargetZoom v (checkClick data t (5 / 10)) (hoverTime ia') fm W H = MIN_ZOOM"
    using assms(3,4,5) f by (intro ruleTargetZoom_fast) simp_all
  then show ?thesis
    by (simp add: tz blendKeyframes_far [OF far])
qed

theorem velocity_rule_witness:
  "motionTrace (segShort (1 / 5) []) [pointerAt 0 200 540 False, pointerAt 1 1700 540 False]
      1920 1080 = Inr [tickFast False]
   \<and> tickFast False \<in> set [tickFast False]
   \<and> tk_velocity (tickFast False) \<ge> MAX_VELOCITY_ZOOM_PENALTY
   \<and> \<not> tk_clicked (tickFast False) \<and> tk_hoverTime (tickFast False) \<le> 2
   \<and> zoomKeyframes (segShort (1 / 5) []) = []
   \<and> tk_targetZoom (tickFast False) = MIN_ZOOM"
proof -
  have m: "tickFast False \<in> set [tickFast False]" by simp
  have v: "tk_velocity (tickFast False) \<ge> MAX_VELOCITY_ZOOM_PENALTY"
    by (simp add: tickFast_def MAX_VELOCITY_ZOOM_PENALTY_def)
  have c: "\<not> tk_clicked (tickFast False)" and h: "tk_hoverTime (tickFast False) \<le> 2"
    by (simp_all add: tickFast_def)
  have k: "\<forall>k\<in>set (zoomKeyframes (segShort (1 / 5) [])). \<bar>time k - tk_time (tickFast False)\<bar> \<ge> 15 / 10"
    by (simp add: segShort_def)
  have e: "zoomKeyframes (segShort (1 / 5) []) = []"
    by (simp add: segShort_def)
  from velocity_rule [OF trace_fast m v c h k] trace_fast [of False] m v c h e
  show ?thesis by (intro conjI)
qed

text \<open>
  The claim as stated fails: a pointer crossing the frame at 1500 px/s with a click
  0.2 s earlier has target zoom 1.7 at that tick, the click rule having raised the
  \<open>MIN_ZOOM\<close> of the velocity rule.
\<close>

theorem velocity_rule_counterexample:
  "motionTrace (segShort (1 / 5) []) [pointerAt 0 200 540 True, pointerAt 1 1700 540 False]
      1920 1080 = Inr [tickFast True]
   \<and> tk_velocity (tickFast True) = 1500 \<and> MAX_VELOCITY_ZOOM_PENALTY \<le> 1500
   \<and> tk_targetZoom (tickFast True) = 17 / 10 \<and> MIN_ZOOM \<noteq> 17 / 10"
  using trace_fast [of True]
  by (simp add: tickFast_def MAX_VELOCITY_ZOOM_PENALTY_def MIN_ZOOM_def)

lemma velocityEnvelope_range: "0 \<le> velocityEnvelope n \<and> velocityEnvelope n \<le> 7 / 10"
  by (induction n) (auto simp: min_def)

lemma zoomEnvelope_nonneg: "0 \<le> zoomEnvelope n"
proof (induction n)
  case 0
  show ?case by simp
next
  case (Suc n)
  have "0 \<le> velocityEnvelope (Suc n)" using velocityEnvelope_range by blast
  with Suc show ?case by (simp del: velocityEnvelope.simps)
qed

lemma zoomEnvelope_mono: "n \<le> m \<Longrightarrow> zoomEnvelope n \<le> zoomEnvelope m"
proof (induction m)
  case 0
  then show ?case by simp
next
  case (Suc m)
  have "0 \<le> velocityEnvelope (Suc m)" using velocityEnvelope_range by blast
  with Suc show ?case by (cases "n = Suc m") (auto simp del: velocityEnvelope.simps)
qed

lemma zoomEnvelope_67: "zoomEnvelope 67 < 7 / 10 - 1 / 2000"
  by (simp add: eval_nat_numeral)

lemma findIndex_Some:
  "findIndex P xs = Some i \<Longrightarrow> i < length xs \<and> P (xs ! i) \<and> (\<forall>j<i. \<not> P (xs ! j))"
proof (induction xs arbitrary: i)
  case Nil
  then show ?case by simp
next
  case (Cons a xs)
  show ?case
  proof (cases "P a")
    case True
    with Cons.prems show ?thesis by simp
  next
    case False
    with Cons.prems obtain k where k: "findIndex P xs = Some k" "i = Suc k" by auto
    from Cons.IH [OF k(1)] False k(2) show ?thesis
      by (auto simp: less_Suc_eq_0_disj)
  qed
qed

lemma sample_static:
  assumes "data \<noteq> []" and "\<forall>p\<in>set data. mp_x p = cx \<and> mp_y p = cy"
  shows "sample data t = Inr (cx, cy)"
proof -
  have at: "mp_x (data ! i) = cx \<and> mp_y (data ! i) = cy" if "i < length data" for i
    using assms(2) that by simp
  have first: "mp_x (data ! 0) = cx \<and> mp_y (data ! 0) = cy"
    and final: "mp_x (data ! (length data - 1)) = cx \<and> mp_y (data ! (length data - 1)) = cy"
    using assms(1) by (simp_all add: at)
  show ?thesis
  proof (cases "t \<le> timestamp (data ! 0) \<or> t \<ge> timestamp (data ! (length data - 1))")
    case True
    with assms(1) first final show ?thesis by (auto simp: sample_def)
  next
    case False
    show ?thesis
    proof (cases "findIndex (\<lambda>p. timestamp p \<ge> t) data")
      case None
      with False assms(1) final show ?thesis by (simp add: sample_def)
    next
      case (Some idx)
      from findIndex_Some [OF Some]
      have idx: "idx < length data" "t \<le> timestamp (data ! idx)"
        and before: "\<forall>j<idx. \<not> t \<le> timestamp (data ! j)" by auto
      from False idx(2) have pos: "idx \<noteq> 0" by (cases idx) auto
      then have "\<not> t \<le> timestamp (data ! (idx - 1))" using before by simp
      with idx(2) have gap: "timestamp (data ! idx) - timestamp (data ! (idx - 1)) \<noteq> 0" by simp
      from idx(1) have "idx - 1 < length data" by simp
      from at [OF this] at [OF idx(1)] False assms(1) Some pos gap
      show ?thesis by (simp add: sample_def Let_def)
    qed
  qed
qed

lemma getVelocity_nonneg: "getVelocity data t = Inr v \<Longrightarrow> 0 \<le> v"
  by (auto simp: getVelocity_def Let_def split: sum.splits)

lemma getVelocity_static:
  assumes "data \<noteq> []" and "\<forall>p\<in>set data. mp_x p = cx \<and> mp_y p = cy"
  shows "getVelocity data t = Inr 0"
  by (simp add: getVelocity_def Let_def sample_static [OF assms])

lemma ruleTargetZoom_le:
  assumes "0 \<le> v" and "hover \<le> 2"
  shows "ruleTargetZoom v c hover fm W H \<le> 17 / 10"
proof -
  define sf where "sf = min 1 (v / MAX_VELOCITY_ZOOM_PENALTY)"
  have sf: "0 \<le> sf" "sf \<le> 1" using assms(1) by (simp_all add: sf_def MAX_VELOCITY_ZOOM_PENALTY_def)
  define z1 where "z1 = BASE_ZOOM * (1 - sf) + MIN_ZOOM * sf"
  have z1: "z1 \<le> 14 / 10"
    unfolding z1_def PHYSICS_defs using sf by (simp add: field_simps)
  define z3 where "z3 = (if c then max z1 (17 / 10) else z1)"
  have z3: "z3 \<le> 17 / 10" using z1 by (simp add: z3_def)
  have "ruleTargetZoom v c hover fm W H \<le> z3"
    using assms(2) unfolding ruleTargetZoom_def Let_def sf_def [symmetric] z1_def [symmetric]
    by (simp add: z3_def)
  with z3 show ?thesis by simp
qed

lemma ruleTargetZoom_inner:
  assumes "200 \<le> fst fm" "fst fm \<le> W - 200" "200 \<le> snd fm" "snd fm \<le> H - 200"
  shows "1 \<le> ruleTargetZoom 0 c hover fm W H"
proof -
  have "\<not> min (fst fm) (W - fst fm) < 200" "\<not> min (snd fm) (H - snd fm) < 200"
    using assms by simp_all
  then show ?thesis
    by (simp add: ruleTargetZoom_def Let_def PHYSICS_defs max_def)
qed

lemma applyPhysics_zoom:
  "ps_vz (applyPhysics st (tx, ty, tz)) = (103 / 108) * ps_vz st + (5 / 108) * (tz - ps_zoom st)"
  "ps_zoom (applyPhysics st (tx, ty, tz)) = ps_zoom st + ps_vz (applyPhysics st (tx, ty, tz)) / 60"
  by (simp_all add: applyPhysics_def Let_def PHYSICS_defs field_simps)

lemma updateInteraction_hover:
  "hoverTime (updateInteraction ia cm) \<le> max (hoverTime ia) 0 + 1 / 60"
  by (auto simp: updateInteraction_def Let_def max_def)

lemma blendKeyframes_none: "blendKeyframes [] t W H target = target"
  by (simp add: blendKeyframes_def split: prod.split)

lemma tick_envelope:
  assumes "tick data seg W H t st ia = Inr (st', ia', tk)" and "zoomKeyframes seg = []"
    and "1 \<le> ps_zoom st" and "ps_zoom st \<le> 1 + zoomEnvelope n"
    and "ps_vz st \<le> velocityEnvelope n" and "hoverTime ia \<le> real n / 60" and "n < 120"
  shows "1 \<le> ps_zoom st'" "ps_zoom st' \<le> 1 + zoomEnvelope (Suc n)"
    "ps_vz st' \<le> velocityEnvelope (Suc n)" "hoverTime ia' \<le> real (Suc n) / 60"
    "constrained tk = st'" "tk_hoverTime tk \<le> 2"
proof -
  from assms(1) obtain cm fm v where
    v: "getVelocity data t = Inr v" and ia': "ia' = updateInteraction ia cm"
    and hc: "hardConstraints W H (integrated tk) = Inr st'"
    and int: "integrated tk = applyPhysics st (blendKeyframes (zoomKeyframes seg) t W H
        (fst fm, snd fm, ruleTargetZoom v (checkClick data t (5 / 10)) (hoverTime ia') fm W H))"
    and con: "constrained tk = st'" and hov: "tk_hoverTime tk = hoverTime ia'"
    by (auto elim: tickE)
  show "constrained tk = st'" by (rule con)
  have "hoverTime ia' \<le> max (hoverTime ia) 0 + 1 / 60"
    unfolding ia' by (rule updateInteraction_hover)
  also have "\<dots> \<le> real n / 60 + 1 / 60" using assms(6) by simp
  finally show h': "hoverTime ia' \<le> real (Suc n) / 60" by (simp add: add_divide_distrib)
  from assms(7) have "real (Suc n) / 60 \<le> 2" by simp
  with h' have h2: "hoverTime ia' \<le> 2" by simp
  then show "tk_hoverTime tk \<le> 2" by (simp add: hov)
  define tz where "tz = ruleTargetZoom v (checkClick data t (5 / 10)) (hoverTime ia') fm W H"
  have tz: "tz \<le> 17 / 10"
    unfolding tz_def using getVelocity_nonneg [OF v] h2 by (rule ruleTargetZoom_le)
  have int': "integrated tk = applyPhysics st (fst fm, snd fm, tz)"
    by (simp add: int assms(2) blendKeyframes_none tz_def)
  define vz' where "vz' = ps_vz (integrated tk)"
  have vz': "vz' = (103 / 108) * ps_vz st + (5 / 108) * (tz - ps_zoom st)"
    and z': "ps_zoom (integrated tk) = ps_zoom st + vz' / 60"
    by (simp_all add: vz'_def int' applyPhysics_zoom)
  have env: "0 \<le> velocityEnvelope n" "velocityEnvelope n \<le> 7 / 10"
    using velocityEnvelope_range [of n] by simp_all
  have a: "(103 / 108) * ps_vz st \<le> (103 / 108) * velocityEnvelope n"
    using assms(5) by simp
  have b: "(5 / 108) * (tz - ps_zoom st) \<le> 7 / 216"
    using tz assms(3) by simp
  have "vz' \<le> velocityEnvelope n + 7 / 216" using a b env(1) unfolding vz' by linarith
  moreover have "vz' \<le> 7 / 10" using a b env(2) unfolding vz' by linarith
  ultimately have v1: "vz' \<le> velocityEnvelope (Suc n)" by simp
  have "ps_vz st' = vz'" using hardConstraints_zoom(2) [OF hc] by (simp add: vz'_def)
  with v1 show "ps_vz st' \<le> velocityEnvelope (Suc n)" by simp
  have zc: "ps_zoom st' = max 1 (min 5 (ps_zoom (integrated tk)))"
    by (rule hardConstraints_zoom(1) [OF hc])
  then show "1 \<le> ps_zoom st'" by simp
  have "vz' / 60 \<le> velocityEnvelope (Suc n) / 60"
    using v1 by (rule divide_right_mono) simp
  then have "ps_zoom (integrated tk) \<le> 1 + zoomEnvelope n + velocityEnvelope (Suc n) / 60"
    using assms(4) unfolding z' by linarith
  moreover have "1 \<le> 1 + zoomEnvelope (Suc n)" using zoomEnvelope_nonneg [of "Suc n"] by simp
  ultimately show "ps_zoom st' \<le> 1 + zoomEnvelope (Suc n)"
    by (simp add: zc del: velocityEnvelope.simps)
qed

lemma simulate_envelope:
  assumes "simulate data seg W H t st ia = Inr tks" and "zoomKeyframes seg = []"
    and "1 \<le> ps_zoom st" and "ps_zoom st \<le> 1 + zoomEnvelope n"
    and "ps_vz st \<le> velocityEnvelope n" and "hoverTime ia \<le> real n / 60"
    and "i < length tks" and "n + i < 120"
  shows "ps_zoom (constrained (tks ! i)) \<le> 1 + zoomEnvelope (Suc (n + i))
         \<and> tk_hoverTime (tks ! i) \<le> 2"
  using assms
proof (induction i arbitrary: t st ia n tks)
  case 0
  from simulate_cases [OF "0.prems"(1)] "0.prems"(7)
  obtain st' ia' tk tks' where tk: "tick data seg W H t st ia = Inr (st', ia', tk)"
    and tks: "tks = tk # tks'" by auto
  from "0.prems"(8) have n: "n < 120" by simp
  from tick_envelope(2,5,6) [OF tk "0.prems"(2-6) n] show ?case by (simp add: tks)
next
  case (Suc i)
  from simulate_cases [OF Suc.prems(1)] Suc.prems(7)
  obtain st' ia' tk tks' where tk: "tick data seg W H t st ia = Inr (st', ia', tk)"
    and rest: "simulate data seg W H (t + 1 / 60) st' ia' = Inr tks'"
    and tks: "tks = tk # tks'" by auto
  from Suc.prems(8) have n: "n < 120" by simp
  note step = tick_envelope [OF tk Suc.prems(2-6) n]
  from Suc.prems(7) tks have i: "i < length tks'" by simp
  from Suc.prems(8) have ni: "Suc n + i < 120" by simp
  from Suc.IH [OF rest Suc.prems(2) step(1,2,3,4) i ni]
  show ?case by (simp add: tks)
qed


lemma tick_static_total:
  assumes "data \<noteq> []" and "\<forall>p\<in>set data. mp_x p = cx \<and> mp_y p = cy"
    and "zoomKeyframes seg = []"
    and "200 \<le> cx" and "cx \<le> W - 200" and "200 \<le> cy" and "cy \<le> H - 200"
    and "1 \<le> ps_zoom st" and "ps_zoom st \<le> 5" and "- 4 \<le> ps_vz st"
  shows "\<exists>st' ia' tk. tick data seg W H t st ia = Inr (st', ia', tk)
            \<and> 1 \<le> ps_zoom st' \<and> ps_zoom st' \<le> 5 \<and> - 4 \<le> ps_vz st'"
proof -
  define ia' where "ia' = updateInteraction ia (cx, cy)"
  define tz where "tz = ruleTargetZoom 0 (checkClick data t (5 / 10)) (hoverTime ia') (cx, cy) W H"
  define s1 where "s1 = applyPhysics st (cx, cy, tz)"
  have tz: "1 \<le> tz" unfolding tz_def using assms(4-7) by (intro ruleTargetZoom_inner) simp_all
  have vz: "ps_vz s1 = (103 / 108) * ps_vz st + (5 / 108) * (tz - ps_zoom st)"
    and z: "ps_zoom s1 = ps_zoom st + ps_vz s1 / 60"
    by (simp_all add: s1_def applyPhysics_zoom)
  have "(103 / 108) * (- 4) \<le> (103 / 108) * ps_vz st"
    using assms(10) by (intro mult_left_mono) simp_all
  moreover have "(5 / 108) * (1 - 5) \<le> (5 / 108) * (tz - ps_zoom st)"
    using tz assms(9) by (intro mult_left_mono) simp_all
  ultimately have v1: "- 4 \<le> ps_vz s1" unfolding vz by (simp add: field_simps)
  then have "- 4 / 60 \<le> ps_vz s1 / 60" by (intro divide_right_mono) simp_all
  with assms(8) have "0 < ps_zoom s1" unfolding z by linarith
  then have nz: "ps_zoom s1 \<noteq> 0" by simp
  then obtain s' where hc: "hardConstraints W H s1 = Inr s'"
    by (simp add: hardConstraints_def Let_def)
  have "\<exists>tk. tick data seg W H t st ia = Inr (s', ia', tk)"
    using hc unfolding s1_def tz_def ia'_def
    by (simp add: tick_def sample_static [OF assms(1,2)] getVelocity_static [OF assms(1,2)]
                  assms(3) blendKeyframes_none Let_def)
  moreover have "1 \<le> ps_zoom s'" "ps_zoom s' \<le> 5" "- 4 \<le> ps_vz s'"
    using hardConstraints_zoom [OF hc] v1 by simp_all
  ultimately show ?thesis by blast
qed

lemma simulate_static_total:
  assumes "data \<noteq> []" and "\<forall>p\<in>set data. mp_x p = cx \<and> mp_y p = cy"
    and "zoomKeyframes seg = []"
    and "200 \<le> cx" and "cx \<le> W - 200" and "200 \<le> cy" and "cy \<le> H - 200"
    and "1 \<le> ps_zoom st" and "ps_zoom st \<le> 5" and "- 4 \<le> ps_vz st"
  shows "\<exists>tks. simulate data seg W H t st ia = Inr tks
            \<and> length tks = (if t \<le> trimEnd seg then nat (\<lfloor>(trimEnd seg - t) * 60\<rfloor> + 1) else 0)"
  using assms
proof (induction data seg W H t st ia rule: simulate.induct)
  case (1 data seg W H t st ia)
  show ?case
  proof (cases "t \<le> trimEnd seg")
    case False
    then show ?thesis by (subst simulate.simps) simp
  next
    case True
    from tick_static_total [OF "1.prems"]
    obtain st' ia' tk where tk: "tick data seg W H t st ia = Inr (st', ia', tk)"
      and inv: "1 \<le> ps_zoom st'" "ps_zoom st' \<le> 5" "- 4 \<le> ps_vz st'"
      by blast
    from "1.IH" [OF True tk] "1.prems"(1-7) inv
    obtain tks where rest: "simulate data seg W H (t + 1 / 60) st' ia' = Inr tks"
      and len: "length tks = (if t + 1 / 60 \<le> trimEnd seg
                              then nat (\<lfloor>(trimEnd seg - (t + 1 / 60)) * 60\<rfloor> + 1) else 0)"
      by auto
    have run: "simulate data seg W H t st ia = Inr (tk # tks)"
      using True tk rest by (subst simulate.simps) simp
    define a where "a = \<lfloor>(trimEnd seg - t) * 60\<rfloor>"
    have shift: "\<lfloor>(trimEnd seg - (t + 1 / 60)) * 60\<rfloor> = a - 1"
    proof -
      have "(trimEnd seg - (t + 1 / 60)) * 60 = (trimEnd seg - t) * 60 - 1"
        by (simp add: algebra_simps)
      then have "\<lfloor>(trimEnd seg - (t + 1 / 60)) * 60\<rfloor> = \<lfloor>(trimEnd seg - t) * 60 - 1\<rfloor>"
        by (simp only:)
      also have "\<dots> = \<lfloor>(trimEnd seg - t) * 60\<rfloor> - 1"
        by simp
      finally show ?thesis by (simp only: a_def)
    qed
    have nonneg: "0 \<le> a" using True by (simp add: a_def)
    have len': "length tks = (if t + 1 / 60 \<le> trimEnd seg then nat (a - 1 + 1) else 0)"
      using len by (simp only: shift)
    have "length (tk # tks) = nat (a + 1)"
    proof (cases "t + 1 / 60 \<le> trimEnd seg")
      case True
      then have "1 \<le> (trimEnd seg - t) * 60" by simp
      then have "1 \<le> a" by (simp add: a_def le_floor_iff)
      with len' True show ?thesis by simp
    next
      case False
      then have "(trimEnd seg - t) * 60 < 1" by simp
      then have "a < 1" by (simp add: a_def floor_less_iff)
      with nonneg have "a = 0" by simp
      with len' False show ?thesis by simp
    qed
    then have "length (tk # tks) = nat (\<lfloor>(trimEnd seg - t) * 60\<rfloor> + 1)"
      by (simp only: a_def)
    with run True show ?thesis by simp
  qed
qed

lemma simulate_times:
  assumes "simulate data seg W H t st ia = Inr tks" and "i < length tks"
  shows "tk_time (tks ! i) = t + real i / 60"
  using assms
proof (induction i arbitrary: t st ia tks)
  case 0
  from simulate_cases [OF "0.prems"(1)] "0.prems"(2)
  obtain st' ia' tk tks' where tk: "tick data seg W H t st ia = Inr (st', ia', tk)"
    and tks: "tks = tk # tks'" by auto
  from tk have "tk_time tk = t" by (auto elim: tickE)
  then show ?case by (simp add: tks)
next
  case (Suc i)
  from simulate_cases [OF Suc.prems(1)] Suc.prems(2)
  obtain st' ia' tk tks' where rest: "simulate data seg W H (t + 1 / 60) st' ia' = Inr tks'"
    and tks: "tks = tk # tks'" by auto
  from Suc.prems(2) tks have "i < length tks'" by simp
  from Suc.IH [OF rest this] show ?case by (simp add: tks add_divide_distrib)
qed

lemma simulate_emitted:
  assumes "simulate data seg W H t st ia = Inr tks" and "tk \<in> set tks"
  shows "emitted tk = recordFrame (tk_time tk) (constrained tk)"
proof -
  from simulate_ticks [OF assms]
  obtain t' st0 ia0 st1 ia1 where "tick data seg W H t' st0 ia0 = Inr (st1, ia1, tk)" by blast
  then show ?thesis by (auto elim: tickE)
qed

lemma simulate_ticks_range:
  assumes "simulate data seg W H t st ia = Inr tks" "tk \<in> set tks"
  shows "\<exists>t' st0 ia0 st1 ia1. tick data seg W H t' st0 ia0 = Inr (st1, ia1, tk)
           \<and> t \<le> t' \<and> t' \<le> trimEnd seg"
  using assms
proof (induction tks arbitrary: t st ia)
  case Nil
  then show ?case by simp
next
  case (Cons a tks)
  from simulate_cases [OF Cons.prems(1)]
  obtain st' ia' where le: "t \<le> trimEnd seg"
    and hd: "tick data seg W H t st ia = Inr (st', ia', a)"
    and tl: "simulate data seg W H (t + 1 / 60) st' ia' = Inr tks"
    by auto
  show ?case
  proof (cases "tk = a")
    case True
    with hd le show ?thesis by blast
  next
    case False
    with Cons.prems(2) have "tk \<in> set tks" by simp
    from Cons.IH [OF tl this]
    obtain t' st0 ia0 st1 ia1 where "tick data seg W H t' st0 ia0 = Inr (st1, ia1, tk)"
      and "t + 1 / 60 \<le> t'" and "t' \<le> trimEnd seg"
      by blast
    then have "tick data seg W H t' st0 ia0 = Inr (st1, ia1, tk) \<and> t \<le> t' \<and> t' \<le> trimEnd seg"
      by simp
    then show ?thesis by blast
  qed
qed

lemma motionTrace_ticks_range:
  assumes "motionTrace seg mps W H = Inr tks" "tk \<in> set tks"
  shows "\<exists>t' st0 ia0 st1 ia1.
           tick (sort_key timestamp
                   (filter (\<lambda>p. timestamp p \<ge> trimStart seg - 1 \<and> timestamp p \<le> trimEnd seg + 1) mps))
                seg W H t' st0 ia0 = Inr (st1, ia1, tk)
           \<and> trimStart seg \<le> t' \<and> t' \<le> trimEnd seg"
proof -
  define data where
    "data = sort_key timestamp
              (filter (\<lambda>p. timestamp p \<ge> trimStart seg - 1 \<and> timestamp p \<le> trimEnd seg + 1) mps)"
  from assms(2) have "tks \<noteq> []" by auto
  with assms(1) obtain st ia where "simulate data seg W H (trimStart seg) st ia = Inr tks"
    by (auto simp: motionTrace_def Let_def data_def split: if_splits)
  from simulate_ticks_range [OF this assms(2)] show ?thesis
    unfolding data_def .
qed

lemma checkClick_near:
  assumes "p \<in> set data" and "isClicked p" and "\<bar>timestamp p - t\<bar> \<le> 1 / 4"
  shows "checkClick data t (5 / 10)"
proof -
  from assms(3) have "t - 1 / 4 \<le> timestamp p" "timestamp p \<le> t + 1 / 4"
    by linarith+
  with assms(1,2) show ?thesis
    by (auto simp: checkClick_def Let_def list_ex_iff)
qed

text \<open>
  C5 (as amended). Take a click event of the telemetry and a tick of the simulation no
  more than 0.25 s away from it (either side, the bounds included), with the look-ahead
  pointer at least 200 px from every edge and no keyframe within 1.5 s. The tick sees
  the click, and the target zoom handed to the spring is at least 1.7, whatever the base
  zoom and the velocity. The zoom of the path follows that target with the lag of the
  spring and need not reach 1.7 while the click is near.
\<close>

theorem click_focus_target:
  assumes "motionTrace seg mps W H = Inr ticks" and "tk \<in> set ticks"
    and "p \<in> set mps" and "isClicked p" and "\<bar>timestamp p - tk_time tk\<bar> \<le> 1 / 4"
    and "200 \<le> fst (tk_futureMouse tk)" and "fst (tk_futureMouse tk) \<le> W - 200"
    and "200 \<le> snd (tk_futureMouse tk)" and "snd (tk_futureMouse tk) \<le> H - 200"
    and "\<forall>k\<in>set (zoomKeyframes seg). \<bar>time k - tk_time tk\<bar> \<ge> 15 / 10"
  shows "tk_clicked tk \<and> tk_targetZoom tk \<ge> 17 / 10"
proof -
  define data where
    "data = sort_key timestamp
              (filter (\<lambda>p. timestamp p \<ge> trimStart seg - 1 \<and> timestamp p \<le> trimEnd seg + 1) mps)"
  from motionTrace_ticks_range [OF assms(1,2)]
  obtain t st ia st' ia' where tk: "tick data seg W H t st ia = Inr (st', ia', tk)"
    and range: "trimStart seg \<le> t" "t \<le> trimEnd seg"
    unfolding data_def by blast
  from tk obtain fm v where
    tz: "tk_targetZoom tk = snd (snd (blendKeyframes (zoomKeyframes seg) t W H
        (fst fm, snd fm, ruleTargetZoom v (checkClick data t (5 / 10)) (hoverTime ia') fm W H)))"
    and f: "tk_time tk = t" "tk_futureMouse tk = fm" "tk_clicked tk = checkClick data t (5 / 10)"
    by (auto elim: tickE)
  from assms(5) f(1) have near: "\<bar>timestamp p - t\<bar> \<le> 1 / 4" by simp
  with range have "trimStart seg - 1 \<le> timestamp p" "timestamp p \<le> trimEnd seg + 1"
    by linarith+
  with assms(3) have "p \<in> set data" by (simp add: data_def)
  from checkClick_near [OF this assms(4) near] have seen: "checkClick data t (5 / 10)" .
  from assms(10) f(1) have far: "\<forall>k\<in>set (zoomKeyframes seg). \<bar>time k - t\<bar> \<ge> 15 / 10"
    by simp
  have "ruleTargetZoom v (checkClick data t (5 / 10)) (hoverTime ia') fm W H \<ge> 17 / 10"
    using seen assms(6-9) f by (intro ruleTargetZoom_click) simp_all
  then have "tk_targetZoom tk \<ge> 17 / 10"
    by (simp add: tz blendKeyframes_far [OF far])
  with seen f(3) show ?thesis by simp
qed


lemma trace_click:
  "motionTrace (segShort (5 / 4) []) clickTrace 1920 1080 = Inr [tickClick]"
  by (simp add: sim_defs segShort_def pointerAt_def simulate.simps clickTrace_def tickClick_def)

text \<open>
  An instance at the edge of the window: the click is at 1 s and the tick at 1.25 s.
\<close>

theorem click_focus_target_witness:
  "motionTrace (segShort (5 / 4) []) clickTrace 1920 1080 = Inr [tickClick]
   \<and> tickClick \<in> set [tickClick]
   \<and> pointerAt 1 960 540 True \<in> set clickTrace \<and> isClicked (pointerAt 1 960 540 True)
   \<and> \<bar>timestamp (pointerAt 1 960 540 True) - tk_time tickClick\<bar> \<le> 1 / 4
   \<and> 200 \<le> fst (tk_futureMouse tickClick) \<and> fst (tk_futureMouse tickClick) \<le> 1920 - 200
   \<and> 200 \<le> snd (tk_futureMouse tickClick) \<and> snd (tk_futureMouse tickClick) \<le> 1080 - 200
   \<and> zoomKeyframes (segShort (5 / 4) []) = []
   \<and> tk_clicked tickClick \<and> tk_targetZoom tickClick \<ge> 17 / 10"
proof -
  have m: "tickClick \<in> set [tickClick]" by simp
  have c: "pointerAt 1 960 540 True \<in> set clickTrace" "isClicked (pointerAt 1 960 540 True)"
    by (simp_all add: clickTrace_def pointerAt_def)
  have d: "\<bar>timestamp (pointerAt 1 960 540 True) - tk_time tickClick\<bar> \<le> 1 / 4"
    by (simp add: pointerAt_def tickClick_def)
  have e: "200 \<le> fst (tk_futureMouse tickClick)" "fst (tk_futureMouse tickClick) \<le> 1920 - 200"
          "200 \<le> snd (tk_futureMouse tickClick)" "snd (tk_futureMouse tickClick) \<le> 1080 - 200"
    by (simp_all add: tickClick_def)
  have k: "\<forall>k\<in>set (zoomKeyframes (segShort (5 / 4) [])). \<bar>time k - tk_time tickClick\<bar> \<ge> 15 / 10"
    by (simp add: segShort_def)
  have n: "zoomKeyframes (segShort (5 / 4) []) = []"
    by (simp add: segShort_def)
  note r = click_focus_target [OF trace_click m c d e k]
  from r have r1: "tk_clicked tickClick" and r2: "tk_targetZoom tickClick \<ge> 17 / 10"
    by simp_all
  from trace_click m c d e n r1 r2 show ?thesis by (intro conjI)
qed

lemma toFixed_upper: "toFixed d v \<le> v + 1 / (2 * 10 ^ d)"
  using toFixed_close [of d v] by linarith

text \<open>
  The claim as stated fails: for a pointer resting at the centre of a 1920 x 1080 frame
  and clicked at 1.0 s only, over the segment from 0 s to 2 s, the path has 121 entries,
  entry 60 is the one at time 1.0, and every entry up to 1.1 s (the first 67) has a zoom
  below 1.7.
\<close>

theorem click_focus_counterexample:
  "\<not> isl (generateMotionPath segClick clickTrace 1920 1080)
   \<and> length (projr (generateMotionPath segClick clickTrace 1920 1080)) = 121
   \<and> pe_time (projr (generateMotionPath segClick clickTrace 1920 1080) ! 60) = 1
   \<and> list_all (\<lambda>e. pe_zoom e < 17 / 10)
        (take 67 (projr (generateMotionPath segClick clickTrace 1920 1080)))"
proof -
  define st0 :: PhysicsState where
    "st0 = \<lparr>ps_x = 1920 / 2, ps_y = 1080 / 2, ps_zoom = 1, ps_vx = 0, ps_vy = 0, ps_vz = 0\<rparr>"
  define ia0 :: InteractionState where
    "ia0 = \<lparr>isClicking = False, clickTime = - 100, hoverTime = 0,
            lastPos = (mp_x (clickTrace ! 0), mp_y (clickTrace ! 0))\<rparr>"
  have trace: "motionTrace segClick clickTrace 1920 1080
                 = simulate clickTrace segClick 1920 1080 0 st0 ia0"
    by (simp add: motionTrace_def Let_def segClick_def clickTrace_def pointerAt_def st0_def ia0_def)
  have ne: "clickTrace \<noteq> []" and static: "\<forall>p\<in>set clickTrace. mp_x p = 960 \<and> mp_y p = 540"
    by (simp_all add: clickTrace_def pointerAt_def)
  have nokf: "zoomKeyframes segClick = []" by (simp add: segClick_def)
  have "\<exists>tks. simulate clickTrace segClick 1920 1080 0 st0 ia0 = Inr tks
          \<and> length tks = (if 0 \<le> trimEnd segClick
                            then nat (\<lfloor>(trimEnd segClick - 0) * 60\<rfloor> + 1) else 0)"
    by (rule simulate_static_total [OF ne static nokf]) (simp_all add: st0_def)
  then obtain tks where run: "simulate clickTrace segClick 1920 1080 0 st0 ia0 = Inr tks"
    and len: "length tks = 121"
    by (auto simp: segClick_def)
  have path: "generateMotionPath segClick clickTrace 1920 1080 = Inr (map emitted tks)"
    by (simp add: generateMotionPath_def trace run)
  have em: "emitted (tks ! i) = recordFrame (tk_time (tks ! i)) (constrained (tks ! i))"
    if "i < 121" for i
    using simulate_emitted [OF run, of "tks ! i"] that len by simp
  have "tk_time (tks ! 60) = 0 + real 60 / 60"
    using len by (intro simulate_times [OF run]) simp
  then have t60: "pe_time (emitted (tks ! 60)) = 1"
    by (simp add: em recordFrame_def toFixed_def)
  have zoom: "pe_zoom (emitted (tks ! i)) < 17 / 10" if "i < 67" for i
  proof -
    from that len have i: "i < length tks" "0 + i < 120" by simp_all
    have "ps_zoom (constrained (tks ! i)) \<le> 1 + zoomEnvelope (Suc (0 + i))"
      using simulate_envelope [where n = 0, OF run nokf _ _ _ _ i] by (simp add: st0_def ia0_def)
    also have "\<dots> \<le> 1 + zoomEnvelope 67"
      using that zoomEnvelope_mono [of "Suc i" 67] by simp
    finally have "ps_zoom (constrained (tks ! i)) < 17 / 10 - 1 / 2000"
      using zoomEnvelope_67 by linarith
    moreover have "pe_zoom (emitted (tks ! i)) \<le> ps_zoom (constrained (tks ! i)) + 1 / 2000"
      using that toFixed_upper [of 3 "ps_zoom (constrained (tks ! i))"]
      by (simp add: em recordFrame_def)
    ultimately show ?thesis by linarith
  qed
  have all: "list_all (\<lambda>e. pe_zoom e < 17 / 10) (take 67 (map emitted tks))"
    using zoom len by (simp add: list_all_length)
  from path len t60 all show ?thesis by simp
qed


text \<open>
  C9. With fewer than two samples inside the padded trim range
  \<open>[trimStart - 1, trimEnd + 1]\<close>, generateMotionPath does not fail: it returns the empty
  path, and no tick of the simulation (hence no call of the sampler) is run.
\<close>

theorem generateMotionPath_few_samples:
  assumes "length (filter (\<lambda>p. timestamp p \<ge> trimStart segment - 1
                              \<and> timestamp p \<le> trimEnd segment + 1) mousePositions) < 2"
  shows "motionTrace segment mousePositions videoWidth videoHeight = Inr []
         \<and> generateMotionPath segment mousePositions videoWidth videoHeight = Inr []"
  using assms by (simp add: generateMotionPath_def motionTrace_def)

theorem generateMotionPath_few_samples_witness:
  "length (filter (\<lambda>p. timestamp p \<ge> trimStart
             \<lparr>trimStart = 0, trimEnd = 2, zoomKeyframes = [], smoothMotionPath = None,
              zoomInfluencePoints = None, crop = None\<rparr> - 1
          \<and> timestamp p \<le> trimEnd
             \<lparr>trimStart = 0, trimEnd = 2, zoomKeyframes = [], smoothMotionPath = None,
              zoomInfluencePoints = None, crop = None\<rparr> + 1)
       [\<lparr>mp_x = 10, mp_y = 20, timestamp = 1, isClicked = False, cursor_type = ''default''\<rparr>,
        \<lparr>mp_x = 30, mp_y = 40, timestamp = 7, isClicked = True, cursor_type = ''default''\<rparr>]) < 2
   \<and> generateMotionPath
       \<lparr>trimStart = 0, trimEnd = 2, zoomKeyframes = [], smoothMotionPath = None,
        zoomInfluencePoints = None, crop = None\<rparr>
       [\<lparr>mp_x = 10, mp_y = 20, timestamp = 1, isClicked = False, cursor_type = ''default''\<rparr>,
        \<lparr>mp_x = 30, mp_y = 40, timestamp = 7, isClicked = True, cursor_type = ''default''\<rparr>]
       1920 1080 = Inr []
   \<and> sample [] 1 = Inl TypeError"
proof -
  have few: "length (filter (\<lambda>p. timestamp p \<ge> trimStart
             \<lparr>trimStart = 0, trimEnd = 2, zoomKeyframes = [], smoothMotionPath = None,
              zoomInfluencePoints = None, crop = None\<rparr> - 1
          \<and> timestamp p \<le> trimEnd
             \<lparr>trimStart = 0, trimEnd = 2, zoomKeyframes = [], smoothMotionPath = None,
              zoomInfluencePoints = None, crop = None\<rparr> + 1)
       [\<lparr>mp_x = 10, mp_y = 20, timestamp = 1, isClicked = False, cursor_type = ''default''\<rparr>,
        \<lparr>mp_x = 30, mp_y = 40, timestamp = 7, isClicked = True, cursor_type = ''default''\<rparr>]) < 2"
    by simp
  from generateMotionPath_few_samples [OF few, of 1920 1080] few
  show ?thesis by (simp add: sample_def)
qed

section \<open>Properties of the cursor smoother\<close>

text \<open>
  C10. On fewer than 4 mouse positions smoothMousePositions returns its input list
  itself: none of resampling, averaging and deadband is applied.
\<close>

theorem smoothMousePositions_short:
  assumes "length positions < 4"
  shows "smoothMousePositions cursorSmoothness positions targetFps = Inr positions"
  using assms by (simp add: smoothMousePositions_def)

theorem smoothMousePositions_short_witness:
  "length [\<lparr>mp_x = 0, mp_y = 0, timestamp = 0, isClicked = False, cursor_type = ''default''\<rparr>,
           \<lparr>mp_x = 7, mp_y = 1, timestamp = 1 / 2, isClicked = True, cursor_type = ''text''\<rparr>,
           \<lparr>mp_x = 3, mp_y = 9, timestamp = 1, isClicked = False, cursor_type = ''default''\<rparr>] < 4
   \<and> smoothMousePositions (Some 5)
        [\<lparr>mp_x = 0, mp_y = 0, timestamp = 0, isClicked = False, cursor_type = ''default''\<rparr>,
         \<lparr>mp_x = 7, mp_y = 1, timestamp = 1 / 2, isClicked = True, cursor_type = ''text''\<rparr>,
         \<lparr>mp_x = 3, mp_y = 9, timestamp = 1, isClicked = False, cursor_type = ''default''\<rparr>] 120
      = Inr [\<lparr>mp_x = 0, mp_y = 0, timestamp = 0, isClicked = False, cursor_type = ''default''\<rparr>,
             \<lparr>mp_x = 7, mp_y = 1, timestamp = 1 / 2, isClicked = True, cursor_type = ''text''\<rparr>,
             \<lparr>mp_x = 3, mp_y = 9, timestamp = 1, isClicked = False, cursor_type = ''default''\<rparr>]"
proof -
  have short: "length [\<lparr>mp_x = 0, mp_y = 0, timestamp = 0, isClicked = False, cursor_type = ''default''\<rparr>,
           \<lparr>mp_x = 7, mp_y = 1, timestamp = 1 / 2, isClicked = True, cursor_type = ''text''\<rparr>,
           \<lparr>mp_x = 3, mp_y = 9, timestamp = 1, isClicked = False, cursor_type = ''default''\<rparr>] < 4"
    by simp
  from smoothMousePositions_short [OF short, of "Some 5" 120] short
  show ?thesis by simp
qed

lemma resampleWindow_dense:
  assumes "\<lceil>double_of (double_of (timestamp p2 - timestamp p1) * targetFps)\<rceil> = 1"
  shows "resampleWindow targetFps p0 p1 p2 p3 = [p1\<lparr>isClicked := isClicked p1 \<or> isClicked p2\<rparr>]"
  unfolding resampleWindow_def Let_def assms
  by (simp add: catmullRomInterpolate_def)

lemma resample_dense:
  assumes "\<forall>i. Suc i < length positions \<longrightarrow>
           \<lceil>double_of (double_of (timestamp (positions ! Suc i) - timestamp (positions ! i))
                        * targetFps)\<rceil> = 1"
  shows "resample targetFps positions
         = map (\<lambda>i. (positions ! Suc i)
                       \<lparr>isClicked := isClicked (positions ! Suc i) \<or> isClicked (positions ! Suc (Suc i))\<rparr>)
               [0 ..< length positions - 3]"
proof -
  have "resampleWindow targetFps (positions ! i) (positions ! (i + 1)) (positions ! (i + 2)) (positions ! (i + 3))
        = [(positions ! Suc i)
             \<lparr>isClicked := isClicked (positions ! Suc i) \<or> isClicked (positions ! Suc (Suc i))\<rparr>]"
    if "i < length positions - 3" for i
  proof -
    from that have "Suc (Suc i) < length positions" by simp
    with assms have "\<lceil>double_of (double_of (timestamp (positions ! Suc (Suc i))
                                             - timestamp (positions ! Suc i)) * targetFps)\<rceil> = 1"
      by blast
    from resampleWindow_dense [OF this] show ?thesis by simp
  qed
  then have "map (\<lambda>i. resampleWindow targetFps (positions ! i) (positions ! (i + 1))
                         (positions ! (i + 2)) (positions ! (i + 3))) [0 ..< length positions - 3]
        = map (\<lambda>i. [(positions ! Suc i)
             \<lparr>isClicked := isClicked (positions ! Suc i) \<or> isClicked (positions ! Suc (Suc i))\<rparr>])
              [0 ..< length positions - 3]"
    by (intro map_cong) simp_all
  then show ?thesis
    unfolding resample_def by (simp only: concat_map_singleton)
qed

lemma gaussianPass_timestamps: "map timestamp (gaussianPass w l) = map timestamp l"
  by (intro nth_equalityI) (simp_all add: gaussianPass_def Let_def)

lemma gaussianPasses_timestamps: "map timestamp ((gaussianPass w ^^ k) l) = map timestamp l"
  by (induction k) (simp_all add: gaussianPass_timestamps)

lemma deadband_timestamps: "map timestamp (deadband th sig l) = map timestamp l"
  by (induction l arbitrary: sig) (simp_all add: Let_def)

lemma deadband_length: "length (deadband th sig l) = length l"
  using deadband_timestamps [of th sig l] by (metis length_map)

lemma gaussianPass_length: "length (gaussianPass w l) = length l"
  by (simp add: gaussianPass_def)

lemma gaussianPasses_length: "length ((gaussianPass w ^^ k) l) = length l"
  by (induction k) (simp_all add: gaussianPass_length)

lemma gaussianPass_clicks: "map isClicked (gaussianPass w l) = map isClicked l"
  by (intro nth_equalityI) (simp_all add: gaussianPass_def Let_def)

lemma gaussianPasses_clicks: "map isClicked ((gaussianPass w ^^ k) l) = map isClicked l"
  by (induction k) (simp_all add: gaussianPass_clicks)

lemma deadband_clicks: "map isClicked (deadband th sig l) = map isClicked l"
  by (induction l arbitrary: sig) (auto simp: Let_def)

lemma symmetric_window_sum:
  fixes g :: "real \<Rightarrow> real"
  assumes "w \<le> i"
  shows "(\<Sum>j = i - w ..< Suc (i + w). (real j - real i) * g \<bar>real i - real j\<bar>) = 0"
proof -
  define S where "S = {i - w ..< Suc (i + w)}"
  define T where "T = (\<Sum>j\<in>S. (real j - real i) * g \<bar>real i - real j\<bar>)"
  have "T = (\<Sum>j\<in>S. (real (2 * i - j) - real i) * g \<bar>real i - real (2 * i - j)\<bar>)"
    unfolding T_def
    by (rule sum.reindex_bij_witness [where i = "\<lambda>j. 2 * i - j" and j = "\<lambda>j. 2 * i - j"])
       (use assms in \<open>auto simp: S_def\<close>)
  also have "\<dots> = (\<Sum>j\<in>S. - ((real j - real i) * g \<bar>real i - real j\<bar>))"
  proof (rule sum.cong [OF refl])
    fix j assume "j \<in> S"
    then have "j \<le> 2 * i" using assms by (auto simp: S_def)
    then have "real (2 * i - j) = 2 * real i - real j" by (simp add: of_nat_diff)
    then have "real (2 * i - j) - real i = - (real j - real i)"
      "\<bar>real i - real (2 * i - j)\<bar> = \<bar>real i - real j\<bar>"
      by simp_all
    then show "(real (2 * i - j) - real i) * g \<bar>real i - real (2 * i - j)\<bar>
               = - ((real j - real i) * g \<bar>real i - real j\<bar>)"
      by (simp only: mult_minus_left)
  qed
  also have "\<dots> = - T" by (simp add: T_def sum_negf)
  finally have "T = 0" by simp
  then show ?thesis by (simp add: T_def S_def)
qed

lemma window_mean_linear:
  fixes f :: "nat \<Rightarrow> real"
  assumes "w \<le> i" and "\<forall>j. i - w \<le> j \<and> j \<le> i + w \<longrightarrow> f j = a + real j * d"
  shows "sum_list (map (\<lambda>j. f j * exp (- \<bar>real i - real j\<bar> * c)) [i - w ..< Suc (i + w)])
           / sum_list (map (\<lambda>j. exp (- \<bar>real i - real j\<bar> * c)) [i - w ..< Suc (i + w)])
         = a + real i * d"
proof -
  define S where "S = {i - w ..< Suc (i + w)}"
  define wt where "wt = (\<lambda>j. exp (- \<bar>real i - real j\<bar> * c))"
  define W where "W = sum wt S"
  have "i \<in> S" using assms(1) by (simp add: S_def)
  then have "S \<noteq> {}" by blast
  then have W: "0 < W"
    unfolding W_def by (intro sum_pos) (simp_all add: S_def wt_def)
  have sym: "(\<Sum>j\<in>S. (real j - real i) * wt j) = 0"
    unfolding S_def wt_def
    by (rule symmetric_window_sum [OF assms(1), where g = "\<lambda>v. exp (- v * c)"])
  have "(\<Sum>j\<in>S. f j * wt j) = (\<Sum>j\<in>S. (a + real i * d) * wt j + d * ((real j - real i) * wt j))"
  proof (rule sum.cong [OF refl])
    fix j assume "j \<in> S"
    then have "f j = a + real j * d" using assms(2) by (simp add: S_def)
    then show "f j * wt j = (a + real i * d) * wt j + d * ((real j - real i) * wt j)"
      by (simp add: algebra_simps)
  qed
  also have "\<dots> = (a + real i * d) * W + d * (\<Sum>j\<in>S. (real j - real i) * wt j)"
    by (simp add: sum.distrib sum_distrib_left W_def)
  finally have "(\<Sum>j\<in>S. f j * wt j) = (a + real i * d) * W"
    by (simp add: sym)
  then have "(\<Sum>j\<in>S. f j * wt j) / W = a + real i * d"
    using W by simp
  moreover have "sum_list (map h [i - w ..< Suc (i + w)]) = sum h S" for h :: "nat \<Rightarrow> real"
    unfolding S_def by (simp only: interv_sum_list_conv_sum_set_nat set_upt)
  ultimately show ?thesis
    by (simp only: wt_def W_def)
qed

lemma gaussianPass_nth:
  assumes "i < length l"
  shows "mp_x (gaussianPass w l ! i)
           = sum_list (map (\<lambda>j. mp_x (l ! j) * exp (- \<bar>real i - real j\<bar> * ((5 / 10) / real w)))
                        [i - w ..< Suc (min (length l - 1) (i + w))])
             / sum_list (map (\<lambda>j. exp (- \<bar>real i - real j\<bar> * ((5 / 10) / real w)))
                          [i - w ..< Suc (min (length l - 1) (i + w))])"
    and "mp_y (gaussianPass w l ! i)
           = sum_list (map (\<lambda>j. mp_y (l ! j) * exp (- \<bar>real i - real j\<bar> * ((5 / 10) / real w)))
                        [i - w ..< Suc (min (length l - 1) (i + w))])
             / sum_list (map (\<lambda>j. exp (- \<bar>real i - real j\<bar> * ((5 / 10) / real w)))
                          [i - w ..< Suc (min (length l - 1) (i + w))])"
  using assms by (simp_all add: gaussianPass_def Let_def)

lemma gaussianPass_linear:
  assumes "w \<le> i" and "i + w < length l"
    and "\<forall>j. i - w \<le> j \<and> j \<le> i + w \<longrightarrow> mp_x (l ! j) = x0 + real j * dx \<and> mp_y (l ! j) = y0 + real j * dy"
  shows "mp_x (gaussianPass w l ! i) = x0 + real i * dx \<and> mp_y (gaussianPass w l ! i) = y0 + real i * dy"
proof -
  have m: "min (length l - 1) (i + w) = i + w" using assms(2) by simp
  have i: "i < length l" using assms(2) by simp
  have x: "\<forall>j. i - w \<le> j \<and> j \<le> i + w \<longrightarrow> mp_x (l ! j) = x0 + real j * dx"
    and y: "\<forall>j. i - w \<le> j \<and> j \<le> i + w \<longrightarrow> mp_y (l ! j) = y0 + real j * dy"
    using assms(3) by simp_all
  show ?thesis
    unfolding gaussianPass_nth [OF i] m
    by (intro conjI window_mean_linear [OF assms(1) x] window_mean_linear [OF assms(1) y])
qed

lemma gaussianPasses_linear:
  assumes "\<forall>j < length l. mp_x (l ! j) = x0 + real j * dx \<and> mp_y (l ! j) = y0 + real j * dy"
  shows "k * w \<le> i \<Longrightarrow> i + k * w < length l \<Longrightarrow>
         mp_x ((gaussianPass w ^^ k) l ! i) = x0 + real i * dx
         \<and> mp_y ((gaussianPass w ^^ k) l ! i) = y0 + real i * dy"
proof (induction k arbitrary: i)
  case 0
  with assms show ?case by simp
next
  case (Suc k)
  define lk where "lk = (gaussianPass w ^^ k) l"
  have len: "length lk = length l" by (simp add: lk_def gaussianPasses_length)
  from Suc.prems have w: "w \<le> i" and iw: "i + w < length lk"
    by (simp_all add: len)
  have "mp_x (lk ! j) = x0 + real j * dx \<and> mp_y (lk ! j) = y0 + real j * dy"
    if "i - w \<le> j \<and> j \<le> i + w" for j
  proof -
    define m where "m = k * w"
    from Suc.prems have "w + m \<le> i" "i + (w + m) < length l" by (simp_all add: m_def)
    with that have "m \<le> j" "j + m < length l" by linarith+
    then have "k * w \<le> j" "j + k * w < length l" by (simp_all add: m_def)
    then show ?thesis unfolding lk_def by (rule Suc.IH)
  qed
  then have "\<forall>j. i - w \<le> j \<and> j \<le> i + w \<longrightarrow>
               mp_x (lk ! j) = x0 + real j * dx \<and> mp_y (lk ! j) = y0 + real j * dy"
    by blast
  from gaussianPass_linear [OF w iw this] show ?case
    by (simp add: lk_def)
qed

lemma deadband_close:
  assumes "0 \<le> th"
  shows "k < length rest \<Longrightarrow>
         sqrt ((mp_x (deadband th sig rest ! k) - mp_x (rest ! k)) ^ 2
             + (mp_y (deadband th sig rest ! k) - mp_y (rest ! k)) ^ 2) \<le> th"
proof (induction rest arbitrary: sig k)
  case Nil
  then show ?case by simp
next
  case (Cons current rest)
  show ?case
  proof (cases k)
    case 0
    have "sqrt ((mp_x sig - mp_x current) ^ 2 + (mp_y sig - mp_y current) ^ 2)
            = sqrt ((mp_x current - mp_x sig) ^ 2 + (mp_y current - mp_y sig) ^ 2)"
      by (simp add: power2_commute)
    with 0 assms show ?thesis by (auto simp: Let_def)
  next
    case (Suc k')
    with Cons.prems have "k' < length rest" by simp
    with Suc show ?thesis by (simp add: Let_def Cons.IH)
  qed
qed

lemma smooth_result:
  assumes "4 \<le> length positions" and "resample targetFps positions \<noteq> []"
  shows "\<exists>p rest.
           (gaussianPass (smoothingWindow cursorSmoothness)
              ^^ nat \<lceil>real (smoothingWindow cursorSmoothness) / 2\<rceil>) (resample targetFps positions)
             = p # rest
           \<and> smoothMousePositions cursorSmoothness positions targetFps
               = Inr (p # deadband (1 / real (smoothingWindow cursorSmoothness)) p rest)"
proof -
  define w where "w = smoothingWindow cursorSmoothness"
  define cur where "cur = (gaussianPass w ^^ nat \<lceil>real w / 2\<rceil>) (resample targetFps positions)"
  have w: "w = ((case cursorSmoothness of None \<Rightarrow> 5 | Some c \<Rightarrow> if c = 0 then 5 else c) * 2) + 1"
    by (simp add: w_def smoothingWindow_def)
  have "length cur = length (resample targetFps positions)"
    by (simp add: cur_def gaussianPasses_length)
  with assms(2) obtain p rest where cur: "cur = p # rest"
    by (cases cur) auto
  have th: "(5 / 10) / (real w / 2) = 1 / real w" by simp
  have "smoothMousePositions cursorSmoothness positions targetFps
          = Inr (p # deadband ((5 / 10) / (real w / 2)) p rest)"
    unfolding smoothMousePositions_def Let_def w [symmetric] cur_def [symmetric]
    using assms(1) by (simp add: cur)
  then have "smoothMousePositions cursorSmoothness positions targetFps
          = Inr (p # deadband (1 / real w) p rest)"
    by (simp only: th)
  with cur show ?thesis
    unfolding cur_def w_def by blast
qed

text \<open>
  What the smoother does to a line when every spacing counts as one frame, for any
  target rate.
\<close>

lemma smooth_dense_line:
  assumes "4 \<le> length positions"
    and "\<forall>i. Suc i < length positions \<longrightarrow>
           \<lceil>double_of (double_of (timestamp (positions ! Suc i) - timestamp (positions ! i))
                        * targetFps)\<rceil> = 1"
    and "\<forall>i < length positions.
           mp_x (positions ! i) = x0 + real i * dx \<and> mp_y (positions ! i) = y0 + real i * dy"
  shows "resample targetFps positions
           = map (\<lambda>i. (positions ! Suc i)
                         \<lparr>isClicked := isClicked (positions ! Suc i) \<or> isClicked (positions ! Suc (Suc i))\<rparr>)
                 [0 ..< length positions - 3]
         \<and> (\<exists>out. smoothMousePositions cursorSmoothness positions targetFps = Inr out
                \<and> map timestamp out = map timestamp (take (length positions - 3) (drop 1 positions))
                \<and> map isClicked out
                    = map (\<lambda>i. isClicked (positions ! Suc i) \<or> isClicked (positions ! Suc (Suc i)))
                          [0 ..< length positions - 3]
                \<and> (\<forall>k. smoothingReach cursorSmoothness \<le> k
                         \<and> k + smoothingReach cursorSmoothness < length positions - 3 \<longrightarrow>
                       sqrt ((mp_x (out ! k) - mp_x (positions ! Suc k)) ^ 2
                           + (mp_y (out ! k) - mp_y (positions ! Suc k)) ^ 2)
                         \<le> 1 / real (smoothingWindow cursorSmoothness)))"
proof -
  define n where "n = length positions - 3"
  define w where "w = smoothingWindow cursorSmoothness"
  define ps where "ps = nat \<lceil>real w / 2\<rceil>"
  define rs where "rs = resample targetFps positions"
  have rs: "rs = map (\<lambda>i. (positions ! Suc i)
                         \<lparr>isClicked := isClicked (positions ! Suc i) \<or> isClicked (positions ! Suc (Suc i))\<rparr>)
                 [0 ..< n]"
    unfolding rs_def n_def by (rule resample_dense [OF assms(2)])
  have len_rs: "length rs = n" by (simp add: rs)
  have n: "0 < n" "n + 3 = length positions" using assms(1) by (simp_all add: n_def)
  have ne: "resample targetFps positions \<noteq> []"
    using len_rs n(1) by (auto simp: rs_def)
  from smooth_result [OF assms(1) ne, of cursorSmoothness]
  obtain p rest where cur: "(gaussianPass w ^^ ps) rs = p # rest"
    and out: "smoothMousePositions cursorSmoothness positions targetFps
                = Inr (p # deadband (1 / real w) p rest)"
    unfolding w_def ps_def rs_def by blast
  define out where "out = p # deadband (1 / real w) p rest"
  have len_cur: "length (p # rest) = n"
    using gaussianPasses_length [where w = w and k = ps and l = rs] by (simp add: cur len_rs)
  have ts: "map timestamp out = map timestamp (take n (drop 1 positions))"
  proof -
    have "map timestamp out = map timestamp (p # rest)"
      by (simp add: out_def deadband_timestamps)
    also have "\<dots> = map timestamp rs"
      using gaussianPasses_timestamps [where w = w and k = ps and l = rs] by (simp add: cur)
    also have "\<dots> = map timestamp (take n (drop 1 positions))"
      unfolding rs using n(2) by (intro nth_equalityI) simp_all
    finally show ?thesis .
  qed
  have clicks: "map isClicked out
                  = map (\<lambda>i. isClicked (positions ! Suc i) \<or> isClicked (positions ! Suc (Suc i))) [0 ..< n]"
  proof -
    have "map isClicked out = map isClicked (p # rest)"
      by (simp add: out_def deadband_clicks)
    also have "\<dots> = map isClicked rs"
      using gaussianPasses_clicks [where w = w and k = ps and l = rs] by (simp add: cur)
    also have "\<dots> = map (\<lambda>i. isClicked (positions ! Suc i) \<or> isClicked (positions ! Suc (Suc i))) [0 ..< n]"
      unfolding rs by simp
    finally show ?thesis .
  qed
  have wpos: "0 \<le> 1 / real w" by simp
  have band: "sqrt ((mp_x (out ! k) - mp_x ((p # rest) ! k)) ^ 2
                  + (mp_y (out ! k) - mp_y ((p # rest) ! k)) ^ 2) \<le> 1 / real w"
    if "k < n" for k
  proof (cases k)
    case 0
    then show ?thesis by (simp add: out_def)
  next
    case (Suc k')
    with that len_cur have "k' < length rest" by simp
    from deadband_close [OF wpos this, of p] Suc show ?thesis
      by (simp add: out_def)
  qed
  have line: "\<forall>j < length rs. mp_x (rs ! j) = (x0 + dx) + real j * dx
                                \<and> mp_y (rs ! j) = (y0 + dy) + real j * dy"
  proof (intro allI impI)
    fix j assume "j < length rs"
    then have j: "j < n" by (simp add: len_rs)
    with n(2) have "Suc j < length positions" by simp
    with assms(3) have "mp_x (positions ! Suc j) = x0 + real (Suc j) * dx"
      "mp_y (positions ! Suc j) = y0 + real (Suc j) * dy"
      by blast+
    with j show "mp_x (rs ! j) = (x0 + dx) + real j * dx \<and> mp_y (rs ! j) = (y0 + dy) + real j * dy"
      by (simp add: rs algebra_simps)
  qed
  have inner: "sqrt ((mp_x (out ! k) - mp_x (positions ! Suc k)) ^ 2
                   + (mp_y (out ! k) - mp_y (positions ! Suc k)) ^ 2) \<le> 1 / real w"
    if "ps * w \<le> k" and "k + ps * w < n" for k
  proof -
    from that have k: "k < n" by simp
    from that have "k + ps * w < length rs" by (simp add: len_rs)
    from gaussianPasses_linear [OF line that(1) this]
    have "mp_x ((p # rest) ! k) = (x0 + dx) + real k * dx" "mp_y ((p # rest) ! k) = (y0 + dy) + real k * dy"
      by (simp_all add: cur)
    moreover from k n(2) have "Suc k < length positions" by simp
    with assms(3) have "mp_x (positions ! Suc k) = x0 + real (Suc k) * dx"
      "mp_y (positions ! Suc k) = y0 + real (Suc k) * dy"
      by blast+
    ultimately have "mp_x ((p # rest) ! k) = mp_x (positions ! Suc k)"
      "mp_y ((p # rest) ! k) = mp_y (positions ! Suc k)"
      by (simp_all add: algebra_simps)
    with band [OF k] show ?thesis by simp
  qed
  have reach: "smoothingReach cursorSmoothness = ps * w"
    by (simp add: smoothingReach_def ps_def w_def)
  from rs out ts clicks inner show ?thesis
    unfolding reach rs_def n_def out_def w_def [symmetric] by blast
qed

text \<open>
  C8 (as amended). Take an input of \<open>n \<ge> 4\<close> samples sampled at or above the target rate
  of 120 Hz (every spacing is positive and at most \<open>1 / 120\<close> s), with positions in equal
  steps along a line. The Catmull-Rom resampling reproduces the samples 1 to \<open>n - 3\<close> of
  the input exactly (position, timestamp and cursor; the click flag is or-ed with that
  of the next sample), and smoothMousePositions returns \<open>n - 3\<close> samples with those
  timestamps and click flags: the first sample and the last two have no 4-point window
  and are dropped. Every returned sample that is at least \<open>passes * windowSize\<close> samples
  away from both ends lies within the deadband threshold \<open>1 / windowSize\<close> of the input
  sample with its timestamp: there the averaging passes keep the line, and the deadband
  moves a position by no more than its threshold. Nearer to the ends the averaging
  window is cut and the positions move.
\<close>

theorem smoothing_dense_trace:
  assumes "4 \<le> length positions"
    and "\<forall>i. Suc i < length positions \<longrightarrow>
           0 < timestamp (positions ! Suc i) - timestamp (positions ! i)
           \<and> timestamp (positions ! Suc i) - timestamp (positions ! i) \<le> 1 / 120"
    and "\<forall>i < length positions.
           mp_x (positions ! i) = x0 + real i * dx \<and> mp_y (positions ! i) = y0 + real i * dy"
  shows "resample 120 positions
           = map (\<lambda>i. (positions ! Suc i)
                         \<lparr>isClicked := isClicked (positions ! Suc i) \<or> isClicked (positions ! Suc (Suc i))\<rparr>)
                 [0 ..< length positions - 3]
         \<and> (\<exists>out. smoothMousePositions cursorSmoothness positions 120 = Inr out
                \<and> map timestamp out = map timestamp (take (length positions - 3) (drop 1 positions))
                \<and> map isClicked out
                    = map (\<lambda>i. isClicked (positions ! Suc i) \<or> isClicked (positions ! Suc (Suc i)))
                          [0 ..< length positions - 3]
                \<and> (\<forall>k. smoothingReach cursorSmoothness \<le> k
                         \<and> k + smoothingReach cursorSmoothness < length positions - 3 \<longrightarrow>
                       sqrt ((mp_x (out ! k) - mp_x (positions ! Suc k)) ^ 2
                           + (mp_y (out ! k) - mp_y (positions ! Suc k)) ^ 2)
                         \<le> 1 / real (smoothingWindow cursorSmoothness)))"
proof -
  have "\<forall>i. Suc i < length positions \<longrightarrow>
           \<lceil>double_of (double_of (timestamp (positions ! Suc i) - timestamp (positions ! i))
                        * 120)\<rceil> = 1"
    using assms(2) dense_at_120 by blast
  from smooth_dense_line [OF assms(1) this assms(3)] show ?thesis .
qed

lemma double_of_spacing: "double_of (1 / 128) = 1 / 128" "double_of (1 / 128 * 120) = 15 / 16"
proof -
  show "double_of (1 / 128) = 1 / 128"
    by (subst double_of_eval [where e = "- 7"]) (simp_all add: roundEven_def Let_def)
  have "double_of (15 / 16) = 15 / 16"
    by (subst double_of_eval [where e = "- 1"]) (simp_all add: roundEven_def Let_def)
  then show "double_of (1 / 128 * 120) = 15 / 16" by simp
qed

lemma linearTrace_dense:
  "\<forall>i. Suc i < length linearTrace \<longrightarrow>
       \<lceil>double_of (double_of (timestamp (linearTrace ! Suc i) - timestamp (linearTrace ! i)) * 120)\<rceil> = 1"
proof (intro allI impI)
  fix i assume "Suc i < length linearTrace"
  then have "i = 0 \<or> i = 1 \<or> i = 2 \<or> i = 3" by (auto simp: linearTrace_def)
  then have "timestamp (linearTrace ! Suc i) - timestamp (linearTrace ! i) = 1 / 128"
    by (auto simp: linearTrace_def pointerAt_def)
  then show "\<lceil>double_of (double_of (timestamp (linearTrace ! Suc i) - timestamp (linearTrace ! i)) * 120)\<rceil> = 1"
    by (simp only: double_of_spacing) simp
qed

lemma linearTrace_resampled:
  "resample 120 linearTrace = [pointerAt (1 / 128) 10 0 False, pointerAt (2 / 128) 20 0 False]"
proof -
  have "[0 ..< length linearTrace - 3] = [0, 1]"
    by (simp add: linearTrace_def upt_rec)
  with resample_dense [OF linearTrace_dense] show ?thesis
    by (simp add: linearTrace_def pointerAt_def)
qed

lemma longTrace_nth:
  assumes "i < 16"
  shows "longTrace ! i = pointerAt (real i / 128) (10 * real i) (5 * real i) False"
  using assms by (simp add: longTrace_def)

lemma longTrace_dense:
  "\<forall>i. Suc i < length longTrace \<longrightarrow>
       0 < timestamp (longTrace ! Suc i) - timestamp (longTrace ! i)
       \<and> timestamp (longTrace ! Suc i) - timestamp (longTrace ! i) \<le> 1 / 120"
proof (intro allI impI)
  fix i assume "Suc i < length longTrace"
  then have i: "Suc i < 16" "i < 16" by (simp_all add: longTrace_def)
  have "timestamp (longTrace ! Suc i) - timestamp (longTrace ! i) = real (Suc i) / 128 - real i / 128"
    by (simp only: longTrace_nth [OF i(1)] longTrace_nth [OF i(2)] pointerAt_def MousePosition.simps)
  also have "\<dots> = 1 / 128" by (simp add: add_divide_distrib)
  finally show "0 < timestamp (longTrace ! Suc i) - timestamp (longTrace ! i)
                \<and> timestamp (longTrace ! Suc i) - timestamp (longTrace ! i) \<le> 1 / 120"
    by simp
qed

lemma longTrace_line:
  "\<forall>i < length longTrace. mp_x (longTrace ! i) = 0 + real i * 10 \<and> mp_y (longTrace ! i) = 0 + real i * 5"
  by (simp add: longTrace_def pointerAt_def)

text \<open>
  An instance: sixteen samples at 128 Hz on a line, smoothed with \<open>cursorSmoothness = 1\<close>
  (window 3, two passes, so the ends are felt over 6 samples). Thirteen samples come
  back, and the one in the middle is within a third of a pixel of input sample 7.
\<close>

theorem smoothing_dense_trace_witness:
  "4 \<le> length longTrace
   \<and> \<not> isl (smoothMousePositions (Some 1) longTrace 120)
   \<and> length (projr (smoothMousePositions (Some 1) longTrace 120)) = 13
   \<and> timestamp (projr (smoothMousePositions (Some 1) longTrace 120) ! 6) = 7 / 128
   \<and> sqrt ((mp_x (projr (smoothMousePositions (Some 1) longTrace 120) ! 6) - 70) ^ 2
          + (mp_y (projr (smoothMousePositions (Some 1) longTrace 120) ! 6) - 35) ^ 2) \<le> 1 / 3"
proof -
  have n: "4 \<le> length longTrace" by (simp add: longTrace_def)
  have len: "length longTrace - 3 = 13" by (simp add: longTrace_def)
  have reach: "smoothingReach (Some 1) = 6" "smoothingWindow (Some 1) = 3"
    by (simp_all add: smoothingReach_def smoothingWindow_def)
  from smoothing_dense_trace [OF n longTrace_dense longTrace_line, of "Some 1"]
  obtain out where out: "smoothMousePositions (Some 1) longTrace 120 = Inr out"
    and ts: "map timestamp out = map timestamp (take (length longTrace - 3) (drop 1 longTrace))"
    and near: "\<forall>k. smoothingReach (Some 1) \<le> k \<and> k + smoothingReach (Some 1) < length longTrace - 3 \<longrightarrow>
                 sqrt ((mp_x (out ! k) - mp_x (longTrace ! Suc k)) ^ 2
                     + (mp_y (out ! k) - mp_y (longTrace ! Suc k)) ^ 2)
                   \<le> 1 / real (smoothingWindow (Some 1))"
    by blast
  have "length (map timestamp out) = 13"
    unfolding ts by (simp add: len longTrace_def)
  then have l13: "length out = 13" by simp
  have "map timestamp out ! 6 = map timestamp (take (length longTrace - 3) (drop 1 longTrace)) ! 6"
    by (simp only: ts)
  then have t6: "timestamp (out ! 6) = 7 / 128"
    using l13 by (simp add: len longTrace_def pointerAt_def)
  have "smoothingReach (Some 1) \<le> 6 \<and> 6 + smoothingReach (Some 1) < length longTrace - 3"
    unfolding reach len by simp
  with near have "sqrt ((mp_x (out ! 6) - mp_x (longTrace ! Suc 6)) ^ 2
                     + (mp_y (out ! 6) - mp_y (longTrace ! Suc 6)) ^ 2)
                   \<le> 1 / real (smoothingWindow (Some 1))"
    by blast
  then have p6: "sqrt ((mp_x (out ! 6) - 70) ^ 2 + (mp_y (out ! 6) - 35) ^ 2) \<le> 1 / 3"
    unfolding reach by (simp add: longTrace_def pointerAt_def)
  from n l13 t6 p6 show ?thesis unfolding out by simp
qed

lemma weight_range: "21 / 22 \<le> exp (- (1 / 22) :: real)" "exp (- (1 / 22) :: real) \<le> 1"
proof -
  have "1 + (- (1 / 22)) \<le> exp (- (1 / 22) :: real)" by (rule exp_ge_add_one_self)
  then show "21 / 22 \<le> exp (- (1 / 22) :: real)" by simp
  show "exp (- (1 / 22) :: real) \<le> 1" by simp
qed

lemma gaussianPass_pair:
  "gaussianPass 11 [p, q]
     = [\<lparr>mp_x = (mp_x p + mp_x q * exp (- (1 / 22))) / (1 + exp (- (1 / 22))),
         mp_y = (mp_y p + mp_y q * exp (- (1 / 22))) / (1 + exp (- (1 / 22))),
         timestamp = timestamp p, isClicked = isClicked p, cursor_type = cursor_type p\<rparr>,
        \<lparr>mp_x = (mp_x p * exp (- (1 / 22)) + mp_x q) / (exp (- (1 / 22)) + 1),
         mp_y = (mp_y p * exp (- (1 / 22)) + mp_y q) / (exp (- (1 / 22)) + 1),
         timestamp = timestamp q, isClicked = isClicked q, cursor_type = cursor_type q\<rparr>]"
proof -
  have u: "[0 ..< length [p, q]] = [0, 1]" "[0 - 11 ..< Suc (min (length [p, q] - 1) (0 + 11))] = [0, 1]"
          "[1 - 11 ..< Suc (min (length [p, q] - 1) (1 + 11))] = [0, 1]"
    by (simp_all add: upt_rec)
  show ?thesis
    unfolding gaussianPass_def Let_def u by simp
qed


lemma pair_step:
  assumes "mp_x p \<le> mp_x q"
  shows "\<exists>p' q'. gaussianPass 11 [p, q] = [p', q']
           \<and> mp_x p + (2 / 5) * (mp_x q - mp_x p) \<le> mp_x p' \<and> mp_x p' \<le> mp_x q'
           \<and> timestamp p' = timestamp p"
proof -
  define w :: real where "w = exp (- (1 / 22))"
  have w: "21 / 22 \<le> w" "w \<le> 1" using weight_range by (simp_all add: w_def)
  then have wpos: "0 < 1 + w" by simp
  define c where "c = w / (1 + w)"
  have c: "2 / 5 \<le> c" "c \<le> 1 / 2"
    using w wpos by (simp_all add: c_def field_simps)
  define d where "d = mp_x q - mp_x p"
  have d: "0 \<le> d" using assms by (simp add: d_def)
  have px: "(mp_x p + mp_x q * w) / (1 + w) = mp_x p + c * d"
    using wpos by (simp add: c_def d_def field_simps)
  have qx: "(mp_x p * w + mp_x q) / (w + 1) = mp_x p + (1 - c) * d"
    using wpos by (simp add: c_def d_def field_simps)
  have lo: "(2 / 5) * d \<le> c * d" using c(1) d by (rule mult_right_mono)
  have "c \<le> 1 - c" using c(2) by simp
  then have hi: "c * d \<le> (1 - c) * d" using d by (rule mult_right_mono)
  show ?thesis
    unfolding gaussianPass_pair w_def [symmetric] px qx d_def [symmetric]
    using lo hi by simp
qed

lemma passes_drift:
  assumes "14 \<le> mp_x p" and "mp_x p \<le> mp_x q"
  shows "\<exists>p' q'. (gaussianPass 11 ^^ k) [p, q] = [p', q']
           \<and> 14 \<le> mp_x p' \<and> mp_x p' \<le> mp_x q' \<and> timestamp p' = timestamp p"
proof (induction k)
  case 0
  from assms show ?case by simp
next
  case (Suc k)
  then obtain p' q' where k: "(gaussianPass 11 ^^ k) [p, q] = [p', q']"
    and inv: "14 \<le> mp_x p'" "mp_x p' \<le> mp_x q'" "timestamp p' = timestamp p"
    by blast
  from pair_step [OF inv(2)]
  obtain p'' q'' where step: "gaussianPass 11 [p', q'] = [p'', q'']"
    and grow: "mp_x p' + (2 / 5) * (mp_x q' - mp_x p') \<le> mp_x p''"
    and ord: "mp_x p'' \<le> mp_x q''" and ts: "timestamp p'' = timestamp p'"
    by blast
  from inv(2) have "0 \<le> (2 / 5) * (mp_x q' - mp_x p')" by simp
  with grow inv(1) have "14 \<le> mp_x p''" by linarith
  with step ord ts inv(3) show ?case by (simp add: k)
qed

lemma smooth_length:
  assumes "4 \<le> length positions" and "resample targetFps positions \<noteq> []"
  shows "\<exists>out. smoothMousePositions cursorSmoothness positions targetFps = Inr out
           \<and> length out = length (resample targetFps positions)"
proof -
  from smooth_result [OF assms, of cursorSmoothness]
  obtain p rest where
    cur: "(gaussianPass (smoothingWindow cursorSmoothness)
             ^^ nat \<lceil>real (smoothingWindow cursorSmoothness) / 2\<rceil>) (resample targetFps positions)
           = p # rest"
    and out: "smoothMousePositions cursorSmoothness positions targetFps
                = Inr (p # deadband (1 / real (smoothingWindow cursorSmoothness)) p rest)"
    by blast
  have "length (p # rest) = length (resample targetFps positions)"
    unfolding cur [symmetric] by (rule gaussianPasses_length)
  then have "length (p # deadband (1 / real (smoothingWindow cursorSmoothness)) p rest)
               = length (resample targetFps positions)"
    by (simp add: deadband_length)
  with out show ?thesis by blast
qed

text \<open>
  At a nominal 120 Hz the timestamps \<open>k / 120\<close> are not doubles, and the doubles nearest
  to them are not equally spaced: between samples 1 and 2 the product
  \<^verbatim>\<open>segmentDuration * targetFps\<close> is 1, between samples 2 and 3 it is
  \<open>1.0000000000000002\<close>, which counts as two frames.
\<close>

lemma nominal_timestamps:
  "double_of (1 / 120) = 4803839602528529 / 2 ^ 59"
  "double_of (2 / 120) = 4803839602528529 / 2 ^ 58"
  "double_of (3 / 120) = 7205759403792794 / 2 ^ 58"
proof -
  show "double_of (1 / 120) = 4803839602528529 / 2 ^ 59"
    by (subst double_of_eval [where e = "- 7"]) (simp_all add: roundEven_def Let_def)
  show "double_of (2 / 120) = 4803839602528529 / 2 ^ 58"
    by (subst double_of_eval [where e = "- 6"]) (simp_all add: roundEven_def Let_def)
  show "double_of (3 / 120) = 7205759403792794 / 2 ^ 58"
    by (subst double_of_eval [where e = "- 6"]) (simp_all add: roundEven_def Let_def)
qed

lemma nominal_first:
  "\<lceil>double_of (double_of (4803839602528529 / 2 ^ 58 - 4803839602528529 / 2 ^ 59) * 120)\<rceil> = 1"
proof -
  have d: "double_of (4803839602528529 / 2 ^ 58 - 4803839602528529 / 2 ^ 59) = 4803839602528529 / 2 ^ 59"
    by (subst double_of_eval [where e = "- 7"]) (simp_all add: roundEven_def Let_def)
  have "double_of (4803839602528529 / 2 ^ 59 * 120) = 1"
    by (subst double_of_eval [where e = "- 1"]) (simp_all add: roundEven_def Let_def)
  then show ?thesis unfolding d by simp
qed

lemma nominal_second:
  "\<lceil>double_of (double_of (7205759403792794 / 2 ^ 58 - 4803839602528529 / 2 ^ 58) * 120)\<rceil> = 2"
proof -
  have d: "double_of (7205759403792794 / 2 ^ 58 - 4803839602528529 / 2 ^ 58) = 4803839602528530 / 2 ^ 59"
    by (subst double_of_eval [where e = "- 7"]) (simp_all add: roundEven_def Let_def)
  have "double_of (4803839602528530 / 2 ^ 59 * 120) = 4503599627370497 / 2 ^ 52"
    by (subst double_of_eval [where e = 0]) (simp_all add: roundEven_def Let_def)
  then show ?thesis unfolding d by (simp add: ceiling_eq_iff)
qed

lemma resampleWindow_length:
  "length (resampleWindow targetFps p0 p1 p2 p3)
     = nat \<lceil>double_of (double_of (timestamp p2 - timestamp p1) * targetFps)\<rceil>"
  by (simp add: resampleWindow_def Let_def)

lemma nominal_rate: "length (resample 120 nominalTrace) = 3"
proof -
  have u: "[0 ..< length nominalTrace - 3] = [0, 1]"
    by (simp add: nominalTrace_def upt_rec)
  have t: "timestamp (nominalTrace ! (0 + 1)) = double_of (1 / 120)"
    "timestamp (nominalTrace ! (0 + 2)) = double_of (2 / 120)"
    "timestamp (nominalTrace ! (1 + 1)) = double_of (2 / 120)"
    "timestamp (nominalTrace ! (1 + 2)) = double_of (3 / 120)"
    by (simp_all add: nominalTrace_def pointerAt_def)
  have w0: "length (resampleWindow 120 (nominalTrace ! 0) (nominalTrace ! (0 + 1))
                      (nominalTrace ! (0 + 2)) (nominalTrace ! (0 + 3))) = 1"
    unfolding resampleWindow_length t nominal_timestamps nominal_first by simp
  have w1: "length (resampleWindow 120 (nominalTrace ! 1) (nominalTrace ! (1 + 1))
                      (nominalTrace ! (1 + 2)) (nominalTrace ! (1 + 3))) = 2"
    unfolding resampleWindow_length t nominal_timestamps nominal_second by simp
  show ?thesis
    unfolding resample_def u
    by (simp only: list.map concat.simps append_Nil2 length_append w0 w1)
qed

text \<open>
  The claim as stated fails: five samples at 128 Hz on a straight line, 10 px apart, come
  back as two samples, and the first of them, at the timestamp of input sample 1
  (x = 10), has x at least 14: the averaging window is cut at the ends of the trace and
  pulls the ends inwards. Five samples at a nominal 120 Hz come back as three.
\<close>

theorem smoothing_dense_trace_counterexample:
  "\<not> isl (smoothMousePositions None linearTrace 120)
   \<and> length linearTrace = 5
   \<and> length (projr (smoothMousePositions None linearTrace 120)) = 2
   \<and> timestamp (hd (projr (smoothMousePositions None linearTrace 120))) = timestamp (linearTrace ! 1)
   \<and> mp_x (linearTrace ! 1) = 10
   \<and> 14 \<le> mp_x (hd (projr (smoothMousePositions None linearTrace 120)))
   \<and> length nominalTrace = 5
   \<and> \<not> isl (smoothMousePositions None nominalTrace 120)
   \<and> length (projr (smoothMousePositions None nominalTrace 120)) = 3"
proof -
  have nominal: "length nominalTrace = 5 \<and> \<not> isl (smoothMousePositions None nominalTrace 120)
                 \<and> length (projr (smoothMousePositions None nominalTrace 120)) = 3"
  proof -
    have n: "4 \<le> length nominalTrace" "length nominalTrace = 5" by (simp_all add: nominalTrace_def)
    have "resample 120 nominalTrace \<noteq> []" using nominal_rate by auto
    from smooth_length [OF n(1) this, of None] nominal_rate n(2) show ?thesis by auto
  qed
  define q1 where "q1 = pointerAt (1 / 128) 10 0 False"
  define q2 where "q2 = pointerAt (2 / 128) 20 0 False"
  have res: "resample 120 linearTrace = [q1, q2]"
    by (simp only: linearTrace_resampled q1_def q2_def)
  have "mp_x q1 \<le> mp_x q2" by (simp add: q1_def q2_def pointerAt_def)
  from pair_step [OF this]
  obtain a b where first: "gaussianPass 11 [q1, q2] = [a, b]"
    and a: "mp_x q1 + (2 / 5) * (mp_x q2 - mp_x q1) \<le> mp_x a" "mp_x a \<le> mp_x b"
           "timestamp a = timestamp q1"
    by blast
  from a(1) have a14: "14 \<le> mp_x a" by (simp add: q1_def q2_def pointerAt_def)
  from passes_drift [OF a14 a(2), of 5]
  obtain p q where rest: "(gaussianPass 11 ^^ 5) [a, b] = [p, q]"
    and p: "14 \<le> mp_x p" "timestamp p = timestamp a"
    by blast
  have six: "(gaussianPass 11 ^^ 6) [q1, q2] = [p, q]"
  proof -
    have "(6 :: nat) = Suc 5" by simp
    then have "(gaussianPass 11 ^^ 6) [q1, q2] = (gaussianPass 11 ^^ Suc 5) [q1, q2]"
      by (simp only:)
    also have "\<dots> = (gaussianPass 11 ^^ 5) (gaussianPass 11 [q1, q2])"
      by (simp only: funpow_Suc_right o_apply)
    also have "\<dots> = [p, q]"
      by (simp only: first rest)
    finally show ?thesis .
  qed
  have win: "((case None :: nat option of None \<Rightarrow> 5 | Some c \<Rightarrow> if c = 0 then 5 else c) * 2) + 1 = (11 :: nat)"
    by simp
  have passes: "nat \<lceil>real 11 / 2\<rceil> = 6" by simp
  have len: "\<not> length linearTrace < 4" by (simp add: linearTrace_def)
  have out: "smoothMousePositions None linearTrace 120
               = Inr (p # deadband ((5 / 10) / (real 11 / 2)) p [q])"
    unfolding smoothMousePositions_def Let_def win passes
    using len by (simp add: res six)
  have two: "length (p # deadband ((5 / 10) / (real 11 / 2)) p [q]) = 2"
    by (simp add: deadband_length)
  have "timestamp p = timestamp (linearTrace ! 1)"
    using p(2) a(3) by (simp add: linearTrace_def q1_def)
  moreover have "mp_x (linearTrace ! 1) = 10" "length linearTrace = 5"
    by (simp_all add: linearTrace_def pointerAt_def)
  ultimately show ?thesis using p(1) two nominal unfolding out by simp
qed


section \<open>Properties of the camera state resolution\<close>

lemma find_first_above:
  fixes f :: "'a \<Rightarrow> real"
  assumes "sorted (map f xs)" "distinct (map f xs)" "n \<in> set xs" "t < f n"
    and "\<forall>k\<in>set xs. t < f k \<longrightarrow> f n \<le> f k"
  shows "find (\<lambda>k. t < f k) xs = Some n"
  using assms
proof (induction xs)
  case Nil
  then show ?case by simp
next
  case (Cons a xs)
  show ?case
  proof (cases "t < f a")
    case True
    have "f n \<le> f a" using Cons.prems(5) True by simp
    moreover have "f a \<le> f n" using Cons.prems(1,3) by auto
    ultimately have "f a = f n" by simp
    with Cons.prems(2,3) have "a = n" by force
    with True show ?thesis by simp
  next
    case False
    with Cons.prems(3,4) have "n \<in> set xs" by auto
    with Cons False show ?thesis by simp
  qed
qed

lemma find_last_below:
  fixes f :: "'a \<Rightarrow> real"
  assumes "sorted (rev (map f ys))" "distinct (map f ys)" "p \<in> set ys" "f p \<le> t"
    and "\<forall>k\<in>set ys. f k \<le> t \<longrightarrow> f k \<le> f p"
  shows "find (\<lambda>k. f k \<le> t) ys = Some p"
  using assms
proof (induction ys)
  case Nil
  then show ?case by simp
next
  case (Cons a ys)
  from Cons.prems(1) have srt: "sorted (rev (map f ys))" and top: "\<forall>y\<in>set ys. f y \<le> f a"
    by (auto simp: sorted_append)
  show ?case
  proof (cases "f a \<le> t")
    case True
    have "f a \<le> f p" using Cons.prems(5) True by simp
    moreover have "f p \<le> f a" using Cons.prems(3) top by auto
    ultimately have "f a = f p" by simp
    with Cons.prems(2,3) have "a = p" by force
    with True show ?thesis by simp
  next
    case False
    with Cons.prems(3,4) have "p \<in> set ys" by auto
    with Cons.IH srt Cons.prems(2,4,5) False show ?thesis by simp
  qed
qed

lemma distinct_map_insort_key:
  "distinct (map f (insort_key f a xs)) \<longleftrightarrow> f a \<notin> f ` set xs \<and> distinct (map f xs)"
  by (induction xs) (auto simp: set_insort_key)

lemma distinct_map_sort_key:
  "distinct (map f xs) \<Longrightarrow> distinct (map f (sort_key f xs))"
  by (induction xs) (auto simp: distinct_map_insort_key)

lemma nextKeyframe_found:
  assumes "distinct (map time kfs)" "bracketsAfter kfs t n"
  shows "find (\<lambda>k. time k > t) (sort_key time kfs) = Some n"
  using assms find_first_above [of time "sort_key time kfs" n t]
  by (simp add: bracketsAfter_def distinct_map_sort_key)

lemma prevKeyframe_found:
  assumes "distinct (map time kfs)" "bracketsBefore kfs t p"
  shows "find (\<lambda>k. time k \<le> t) (rev (sort_key time kfs)) = Some p"
  using assms find_last_below [of time "rev (sort_key time kfs)" p t]
  by (simp add: bracketsBefore_def distinct_map_sort_key rev_map [symmetric])

lemma nextKeyframe_none:
  assumes "\<forall>k\<in>set kfs. time k \<le> t"
  shows "find (\<lambda>k. time k > t) (sort_key time kfs) = None"
  using assms by (auto simp: find_None_iff)

lemma prevKeyframe_none:
  assumes "\<forall>k\<in>set kfs. t < time k"
  shows "find (\<lambda>k. time k \<le> t) (rev (sort_key time kfs)) = None"
  using assms by (auto simp: find_None_iff)


lemma fallback_reached:
  assumes "smoothMotionPath seg = None \<or> smoothMotionPath seg = Some []"
  shows "calculateCurrentZoomStateInternal this t seg vw vh = Inr (keyframeFallback (zoomKeyframes seg) t)"
  using assms by (auto simp: calculateCurrentZoomStateInternal_def)

lemma sort_key_nonempty: "k \<in> set kfs \<Longrightarrow> sort_key f kfs \<noteq> []"
  using length_sort [of f kfs] by (cases kfs) auto

text \<open>
  C6 (as amended). For a segment with no dense motion path and keyframes at distinct
  times, the camera resolved at time \<open>t\<close> is: the cubic ease-out \<open>1 - (1 - x)^3\<close>
  interpolation between the bracketing keyframes when they are at most 1.0 s apart;
  otherwise, when the next keyframe is at most 1.0 s ahead, the ease-out from the previous
  keyframe (from the default state when none precedes) to the next one over that last
  second; otherwise the previous keyframe unchanged, or the default state (zoom 1, centre
  0.5/0.5) when no keyframe precedes \<open>t\<close>.
\<close>

theorem keyframe_fallback_resolution:
  assumes "smoothMotionPath seg = None \<or> smoothMotionPath seg = Some []"
    and "distinct (map time (zoomKeyframes seg))"
  shows
   "(bracketsBefore (zoomKeyframes seg) t p \<and> bracketsAfter (zoomKeyframes seg) t n
       \<and> time n - time p \<le> 1 \<longrightarrow>
     calculateCurrentZoomStateInternal this t seg vw vh
       = Inr (easedState t (time n - time p) p n ((t - time p) / (time n - time p))))
  \<and> (bracketsBefore (zoomKeyframes seg) t p \<and> bracketsAfter (zoomKeyframes seg) t n
       \<and> time n - time p > 1 \<and> time n - t \<le> 1 \<longrightarrow>
     calculateCurrentZoomStateInternal this t seg vw vh
       = Inr (easedState t 1 p n (1 - (time n - t))))
  \<and> (bracketsBefore (zoomKeyframes seg) t p \<and> bracketsAfter (zoomKeyframes seg) t n
       \<and> time n - t > 1 \<longrightarrow>
     calculateCurrentZoomStateInternal this t seg vw vh = Inr p)
  \<and> (bracketsBefore (zoomKeyframes seg) t p \<and> (\<forall>k\<in>set (zoomKeyframes seg). time k \<le> t) \<longrightarrow>
     calculateCurrentZoomStateInternal this t seg vw vh = Inr p)
  \<and> ((\<forall>k\<in>set (zoomKeyframes seg). t < time k) \<and> bracketsAfter (zoomKeyframes seg) t n
       \<and> time n - t \<le> 1 \<longrightarrow>
     calculateCurrentZoomStateInternal this t seg vw vh
       = Inr (easedState t 1 DEFAULT_STATE n (1 - (time n - t))))
  \<and> ((\<forall>k\<in>set (zoomKeyframes seg). t < time k) \<and> bracketsAfter (zoomKeyframes seg) t n
       \<and> time n - t > 1 \<longrightarrow>
     calculateCurrentZoomStateInternal this t seg vw vh = Inr DEFAULT_STATE)"
proof -
  let ?kfs = "zoomKeyframes seg"
  note fb = fallback_reached [OF assms(1)]
  have both: "keyframeFallback ?kfs t =
      (if time n - time p \<le> 1
       then easedState t (time n - time p) p n ((t - time p) / (time n - time p))
       else if time n - t \<le> 1 then easedState t 1 p n (1 - (time n - t)) else p)"
    if "bracketsBefore ?kfs t p" "bracketsAfter ?kfs t n"
  proof -
    have "p \<in> set ?kfs" using that(1) by (simp add: bracketsBefore_def)
    then have ne: "sort_key time ?kfs \<noteq> []" by (rule sort_key_nonempty)
    show ?thesis
      using ne by (simp add: keyframeFallback_def Let_def
        nextKeyframe_found [OF assms(2) that(2)] prevKeyframe_found [OF assms(2) that(1)])
  qed
  have only_prev: "keyframeFallback ?kfs t = p"
    if "bracketsBefore ?kfs t p" "\<forall>k\<in>set ?kfs. time k \<le> t"
  proof -
    have "p \<in> set ?kfs" using that(1) by (simp add: bracketsBefore_def)
    then have ne: "sort_key time ?kfs \<noteq> []" by (rule sort_key_nonempty)
    show ?thesis
      using ne by (simp add: keyframeFallback_def Let_def
        nextKeyframe_none [OF that(2)] prevKeyframe_found [OF assms(2) that(1)])
  qed
  have only_next: "keyframeFallback ?kfs t =
      (if time n - t \<le> 1 then easedState t 1 DEFAULT_STATE n (1 - (time n - t)) else DEFAULT_STATE)"
    if "\<forall>k\<in>set ?kfs. t < time k" "bracketsAfter ?kfs t n"
  proof -
    have "n \<in> set ?kfs" using that(2) by (simp add: bracketsAfter_def)
    then have ne: "sort_key time ?kfs \<noteq> []" by (rule sort_key_nonempty)
    show ?thesis
      using ne by (simp add: keyframeFallback_def Let_def
        nextKeyframe_found [OF assms(2) that(2)] prevKeyframe_none [OF that(1)])
  qed
  have far: "time n - time p > 1" if "bracketsBefore ?kfs t p" "time n - t > 1"
    using that by (simp add: bracketsBefore_def)
  show ?thesis
    using both only_prev only_next far by (auto simp: fb)
qed

theorem keyframe_fallback_resolution_witness:
  "calculateCurrentZoomStateInternal newRenderer (1 / 4) (segK [kfA, kfC]) 1920 1080
     = Inr (easedState (1 / 4) (1 / 2) kfA kfC (1 / 2))
   \<and> calculateCurrentZoomStateInternal newRenderer (5 / 2) (segK [kfA, kfB]) 1920 1080
     = Inr (easedState (5 / 2) 1 kfA kfB (1 / 2))
   \<and> calculateCurrentZoomStateInternal newRenderer 1 (segK [kfA, kfB]) 1920 1080 = Inr kfA
   \<and> calculateCurrentZoomStateInternal newRenderer 4 (segK [kfA, kfB]) 1920 1080 = Inr kfB
   \<and> calculateCurrentZoomStateInternal newRenderer (5 / 2) (segK [kfB]) 1920 1080
     = Inr (easedState (5 / 2) 1 DEFAULT_STATE kfB (1 / 2))
   \<and> calculateCurrentZoomStateInternal newRenderer 1 (segK [kfB]) 1920 1080 = Inr DEFAULT_STATE"
proof -
  have nopath: "smoothMotionPath (segK kfs) = None \<or> smoothMotionPath (segK kfs) = Some []" for kfs
    by (simp add: segK_def)
  have d1: "distinct (map time (zoomKeyframes (segK [kfA, kfC])))"
    and d2: "distinct (map time (zoomKeyframes (segK [kfA, kfB])))"
    and d3: "distinct (map time (zoomKeyframes (segK [kfB])))"
    by (simp_all add: segK_def kfA_def kfB_def kfC_def)
  have b1: "bracketsBefore (zoomKeyframes (segK [kfA, kfC])) (1 / 4) kfA
            \<and> bracketsAfter (zoomKeyframes (segK [kfA, kfC])) (1 / 4) kfC
            \<and> time kfC - time kfA \<le> 1"
    by (simp add: bracketsBefore_def bracketsAfter_def segK_def kfA_def kfC_def)
  have b2: "bracketsBefore (zoomKeyframes (segK [kfA, kfB])) (5 / 2) kfA
            \<and> bracketsAfter (zoomKeyframes (segK [kfA, kfB])) (5 / 2) kfB
            \<and> time kfB - time kfA > 1 \<and> time kfB - 5 / 2 \<le> 1"
    by (simp add: bracketsBefore_def bracketsAfter_def segK_def kfA_def kfB_def)
  have b3: "bracketsBefore (zoomKeyframes (segK [kfA, kfB])) 1 kfA
            \<and> bracketsAfter (zoomKeyframes (segK [kfA, kfB])) 1 kfB
            \<and> time kfB - 1 > 1"
    by (simp add: bracketsBefore_def bracketsAfter_def segK_def kfA_def kfB_def)
  have b4: "bracketsBefore (zoomKeyframes (segK [kfA, kfB])) 4 kfB
            \<and> (\<forall>k\<in>set (zoomKeyframes (segK [kfA, kfB])). time k \<le> 4)"
    by (simp add: bracketsBefore_def segK_def kfA_def kfB_def)
  have b5: "(\<forall>k\<in>set (zoomKeyframes (segK [kfB])). 5 / 2 < time k)
            \<and> bracketsAfter (zoomKeyframes (segK [kfB])) (5 / 2) kfB \<and> time kfB - 5 / 2 \<le> 1"
    by (simp add: bracketsAfter_def segK_def kfB_def)
  have b6: "(\<forall>k\<in>set (zoomKeyframes (segK [kfB])). 1 < time k)
            \<and> bracketsAfter (zoomKeyframes (segK [kfB])) 1 kfB \<and> time kfB - 1 > 1"
    by (simp add: bracketsAfter_def segK_def kfB_def)
  have tm: "time kfA = 0" "time kfB = 3" "time kfC = 1 / 2"
    by (simp_all add: kfA_def kfB_def kfC_def)
  have "calculateCurrentZoomStateInternal newRenderer (1 / 4) (segK [kfA, kfC]) 1920 1080
          = Inr (easedState (1 / 4) (time kfC - time kfA) kfA kfC
                   ((1 / 4 - time kfA) / (time kfC - time kfA)))"
    using keyframe_fallback_resolution [OF nopath d1, where t = "1 / 4" and p = kfA and n = kfC
                                        and vw = 1920 and vh = 1080 and this = newRenderer] b1
    by blast
  then have r1: "calculateCurrentZoomStateInternal newRenderer (1 / 4) (segK [kfA, kfC]) 1920 1080
              = Inr (easedState (1 / 4) (1 / 2) kfA kfC (1 / 2))"
    by (simp add: tm)
  have "calculateCurrentZoomStateInternal newRenderer (5 / 2) (segK [kfA, kfB]) 1920 1080
              = Inr (easedState (5 / 2) 1 kfA kfB (1 - (time kfB - 5 / 2)))"
    using keyframe_fallback_resolution [OF nopath d2, where t = "5 / 2" and p = kfA and n = kfB
                                        and vw = 1920 and vh = 1080 and this = newRenderer] b2
    by blast
  then have r2: "calculateCurrentZoomStateInternal newRenderer (5 / 2) (segK [kfA, kfB]) 1920 1080
              = Inr (easedState (5 / 2) 1 kfA kfB (1 / 2))"
    by (simp add: tm)
  have r3: "calculateCurrentZoomStateInternal newRenderer 1 (segK [kfA, kfB]) 1920 1080 = Inr kfA"
    using keyframe_fallback_resolution [OF nopath d2, where t = 1 and p = kfA and n = kfB
                                        and vw = 1920 and vh = 1080 and this = newRenderer] b3
    by blast
  have r4: "calculateCurrentZoomStateInternal newRenderer 4 (segK [kfA, kfB]) 1920 1080 = Inr kfB"
    using keyframe_fallback_resolution [OF nopath d2, where t = 4 and p = kfB and n = kfB
                                        and vw = 1920 and vh = 1080 and this = newRenderer] b4
    by blast
  have "calculateCurrentZoomStateInternal newRenderer (5 / 2) (segK [kfB]) 1920 1080
              = Inr (easedState (5 / 2) 1 DEFAULT_STATE kfB (1 - (time kfB - 5 / 2)))"
    using keyframe_fallback_resolution [OF nopath d3, where t = "5 / 2" and p = kfB and n = kfB
                                        and vw = 1920 and vh = 1080 and this = newRenderer] b5
    by blast
  then have r5: "calculateCurrentZoomStateInternal newRenderer (5 / 2) (segK [kfB]) 1920 1080
              = Inr (easedState (5 / 2) 1 DEFAULT_STATE kfB (1 / 2))"
    by (simp add: tm)
  have r6: "calculateCurrentZoomStateInternal newRenderer 1 (segK [kfB]) 1920 1080 = Inr DEFAULT_STATE"
    using keyframe_fallback_resolution [OF nopath d3, where t = 1 and p = kfB and n = kfB
                                        and vw = 1920 and vh = 1080 and this = newRenderer] b6
    by blast
  from r1 r2 r3 r4 r5 r6 show ?thesis by blast
qed


text \<open>
  The claim as stated fails: with keyframes at 0 s and 3 s (more than the threshold
  apart) the camera at 2.5 s is not the previous keyframe held unchanged; it is already
  seven eighths of the way to the next one.
\<close>

theorem keyframe_fallback_resolution_counterexample: "calculateCurrentZoomStateInternal newRenderer (5 / 2) (segK [kfA, kfB]) 1920 1080
    = Inr \<lparr>time = 5 / 2, duration = 1, zoomFactor = 15 / 8, positionX = 9 / 32, positionY = 23 / 32, easingType = EaseOut\<rparr>
   \<and> bracketsBefore [kfA, kfB] (5 / 2) kfA \<and> bracketsAfter [kfA, kfB] (5 / 2) kfB
   \<and> time kfB - time kfA > 1
   \<and> calculateCurrentZoomStateInternal newRenderer (5 / 2) (segK [kfA, kfB]) 1920 1080 \<noteq> Inr kfA"
  by (simp add: calculateCurrentZoomStateInternal_def keyframeFallback_def segK_def kfA_def kfB_def easedState_def easeOutCubic_def Let_def power3_eq_cube
                bracketsBefore_def bracketsAfter_def)



lemma resolution_writes_state:
  assumes "calculateCurrentZoomState this t seg vw vh = Inr (z, this')"
  shows "this' = this\<lparr>lastCalculatedState := Some z\<rparr>"
  using assms by (auto simp: calculateCurrentZoomState_def split: sum.splits)





section \<open>Properties of the export driver\<close>

lemma makeEven_even: "even (makeEven w)"
  by (simp add: makeEven_def) presburger

lemma lookup_1080p: "lookupPreset ''1080p'' = \<lparr>dp_label = ''Full HD (1080p)'', dp_width = 1920, dp_height = 1080\<rparr>"
  by (simp add: lookupPreset_def DIMENSION_PRESETS_def)

text \<open>
  The product \<^verbatim>\<open>vidW * crop.width\<close> is rounded to a double before \<^verbatim>\<open>Math.round\<close> sees it:
  5 times the double nearest to 0.3 is a little less than 1.5 and is rounded to 1.5,
  which \<^verbatim>\<open>Math.round\<close> takes up to 2.
\<close>

lemma croppedSize_product:
  "croppedSize (Some \<lparr>el_videoWidth = 5, el_videoHeight = 5, el_src = ''file.mp4''\<rparr>)
     (Some \<lparr>crop_x = 0, crop_y = 0, crop_width = 5404319552844595 / 2 ^ 54,
             crop_height = 5404319552844595 / 2 ^ 54\<rparr>) = (2, 2)"
proof -
  have p: "double_of (27021597764222975 / 18014398509481984) = 3 / 2"
    by (subst double_of_eval [where e = 0]) (simp_all add: roundEven_def Let_def)
  show ?thesis
    by (simp add: croppedSize_def js_round_def p)
qed

text \<open>
  C7 (as amended). With the preset \<^verbatim>\<open>1080p\<close> the exporter of videoExporter.ts, on a crop
  whose height rounds to a non-zero number of pixels, negotiates height 1080 and the
  width \<^verbatim>\<open>Math.round(1080 * (croppedW / croppedH))\<close>, the quotient and the product each
  rounded to a double, lowered by one when odd. Both are even, the width is within
  1.5 px (and a relative \<open>2^-51\<close>) of \<open>1080 * croppedW / croppedH\<close>, and a crop of ratio
  16:9 gives exactly 1920 x 1080. The streaming exporter takes 1920 x 1080 from the
  preset table for every source.
\<close>

theorem export_size_1080p:
  assumes "croppedSize video cropRect = (croppedW, croppedH)" and "croppedH \<noteq> 0"
  shows "croppedExportSize ''1080p'' video cropRect
           = Some (makeEven (js_round (double_of
                      (1080 * double_of (real_of_int croppedW / real_of_int croppedH)))), 1080)
         \<and> even (makeEven (js_round (double_of
                      (1080 * double_of (real_of_int croppedW / real_of_int croppedH)))))
         \<and> even (1080 :: int)
         \<and> \<bar>real_of_int (makeEven (js_round (double_of
                      (1080 * double_of (real_of_int croppedW / real_of_int croppedH)))))
              - 1080 * (real_of_int croppedW / real_of_int croppedH)\<bar>
             \<le> 3 / 2 + \<bar>1080 * (real_of_int croppedW / real_of_int croppedH)\<bar> / 2 ^ 51
         \<and> (9 * croppedW = 16 * croppedH \<longrightarrow>
              croppedExportSize ''1080p'' video cropRect = Some (1920, 1080))
         \<and> presetExportSize ''1080p'' sourceVideo = (1920, 1080)"
proof -
  define r where "r = real_of_int croppedW / real_of_int croppedH"
  define d where "d = double_of (1080 * double_of r)"
  have main: "croppedExportSize ''1080p'' video cropRect = Some (makeEven (js_round d), 1080)"
    using assms by (simp add: croppedExportSize_def lookup_1080p Let_def makeEven_def d_def r_def)
  have near: "\<bar>real_of_int (makeEven (js_round d)) - 1080 * r\<bar> \<le> 3 / 2 + \<bar>1080 * r\<bar> / 2 ^ 51"
  proof -
    have "\<bar>d - 1080 * r\<bar> \<le> \<bar>1080 * r\<bar> / 2 ^ 51"
      unfolding d_def by (rule double_product_close)
    moreover have "d - 1 / 2 < real_of_int (js_round d)" "real_of_int (js_round d) \<le> d + 1 / 2"
      unfolding js_round_def by linarith+
    moreover have "js_round d - 1 \<le> makeEven (js_round d)" "makeEven (js_round d) \<le> js_round d"
      by (simp_all add: makeEven_def)
    then have "real_of_int (js_round d) - 1 \<le> real_of_int (makeEven (js_round d))"
      "real_of_int (makeEven (js_round d)) \<le> real_of_int (js_round d)"
      by linarith+
    ultimately show ?thesis by linarith
  qed
  have wide: "makeEven (js_round d) = 1920" if "9 * croppedW = 16 * croppedH"
  proof -
    from that have "9 * real_of_int croppedW = 16 * real_of_int croppedH"
      by (metis of_int_mult of_int_numeral)
    with assms(2) have "r = 16 / 9"
      by (simp add: r_def field_simps)
    then have "d = 1920"
      by (simp only: d_def double_of_16_9)
    then have "js_round d = js_round 1920"
      by (simp only:)
    also have "\<dots> = 1920"
      by (simp add: js_round_def)
    finally show ?thesis by (simp add: makeEven_def)
  qed
  have preset: "presetExportSize ''1080p'' sourceVideo = (1920, 1080)"
    by (simp add: presetExportSize_def lookup_1080p)
  from main near wide preset show ?thesis
    unfolding d_def r_def by (simp add: makeEven_even)
qed

lemma croppedSize_crop:
  "croppedSize (Some \<lparr>el_videoWidth = 3840, el_videoHeight = 2160, el_src = ''file.mp4''\<rparr>)
     (Some \<lparr>crop_x = 0, crop_y = 0, crop_width = 8601875288277647 / 2 ^ 53, crop_height = 1\<rparr>)
   = (3667, 2160)"
proof -
  have p: "double_of (129028129324164705 / 35184372088832) = 4032129041380147 / 2 ^ 40"
    by (subst double_of_eval [where e = 11]) (simp_all add: roundEven_def Let_def)
  have q: "double_of 2160 = 2160" using double_of_int [of 2160] by simp
  show ?thesis
    by (simp add: croppedSize_def js_round_def p q)
qed

lemma double_of_tie: "double_of (1080 * double_of (3667 / 2160)) = 8063818278109183 / 2 ^ 42"
proof -
  have a: "double_of (3667 / 2160) = 7645694367392411 / 2 ^ 52"
    by (subst double_of_eval [where e = 0]) (simp_all add: roundEven_def Let_def)
  have b: "double_of (1080 * (7645694367392411 / 2 ^ 52)) = 8063818278109183 / 2 ^ 42"
    by (subst double_of_eval [where e = 10]) (simp_all add: roundEven_def Let_def)
  show ?thesis unfolding a by (rule b)
qed

text \<open>
  Two instances: a 2560 x 1440 source cropped to three quarters (1920 x 1080, ratio
  16:9), and a 3840 x 2160 source cropped to the double nearest to 0.955 of its width
  (3667 x 2160), where \<open>1080 * 3667 / 2160 = 1833.5\<close> is a tie in exact arithmetic: the
  doubles give \<open>1833.4999999999998\<close>, which rounds to 1833 and is lowered to 1832.
\<close>

theorem export_size_1080p_witness:
  "croppedSize (Some \<lparr>el_videoWidth = 2560, el_videoHeight = 1440, el_src = ''file.mp4''\<rparr>)
       (Some \<lparr>crop_x = 1 / 8, crop_y = 0, crop_width = 3 / 4, crop_height = 3 / 4\<rparr>) = (1920, 1080)
   \<and> (1080 :: int) \<noteq> 0 \<and> (9 :: int) * 1920 = 16 * 1080
   \<and> croppedExportSize ''1080p''
       (Some \<lparr>el_videoWidth = 2560, el_videoHeight = 1440, el_src = ''file.mp4''\<rparr>)
       (Some \<lparr>crop_x = 1 / 8, crop_y = 0, crop_width = 3 / 4, crop_height = 3 / 4\<rparr>) = Some (1920, 1080)
   \<and> croppedSize (Some \<lparr>el_videoWidth = 3840, el_videoHeight = 2160, el_src = ''file.mp4''\<rparr>)
       (Some \<lparr>crop_x = 0, crop_y = 0, crop_width = 8601875288277647 / 2 ^ 53, crop_height = 1\<rparr>)
       = (3667, 2160)
   \<and> (2160 :: int) \<noteq> 0
   \<and> croppedExportSize ''1080p''
       (Some \<lparr>el_videoWidth = 3840, el_videoHeight = 2160, el_src = ''file.mp4''\<rparr>)
       (Some \<lparr>crop_x = 0, crop_y = 0, crop_width = 8601875288277647 / 2 ^ 53, crop_height = 1\<rparr>)
       = Some (1832, 1080)"
proof -
  have c: "croppedSize (Some \<lparr>el_videoWidth = 2560, el_videoHeight = 1440, el_src = ''file.mp4''\<rparr>)
       (Some \<lparr>crop_x = 1 / 8, crop_y = 0, crop_width = 3 / 4, crop_height = 3 / 4\<rparr>) = (1920, 1080)"
    using double_of_int [of 1920] double_of_int [of 1080]
    by (simp add: croppedSize_def js_round_def)
  have nz: "(1080 :: int) \<noteq> 0" by simp
  have ratio: "(9 :: int) * 1920 = 16 * 1080" by simp
  have first: "croppedExportSize ''1080p''
       (Some \<lparr>el_videoWidth = 2560, el_videoHeight = 1440, el_src = ''file.mp4''\<rparr>)
       (Some \<lparr>crop_x = 1 / 8, crop_y = 0, crop_width = 3 / 4, crop_height = 3 / 4\<rparr>) = Some (1920, 1080)"
    using export_size_1080p [OF c nz, THEN conjunct2, THEN conjunct2, THEN conjunct2,
                             THEN conjunct2, THEN conjunct1]
          ratio by (rule mp)
  note c' = croppedSize_crop
  have nz': "(2160 :: int) \<noteq> 0" by simp
  have "croppedExportSize ''1080p''
       (Some \<lparr>el_videoWidth = 3840, el_videoHeight = 2160, el_src = ''file.mp4''\<rparr>)
       (Some \<lparr>crop_x = 0, crop_y = 0, crop_width = 8601875288277647 / 2 ^ 53, crop_height = 1\<rparr>)
       = Some (makeEven (js_round (double_of
                      (1080 * double_of (real_of_int 3667 / real_of_int 2160)))), 1080)"
    by (rule export_size_1080p [OF c' nz', THEN conjunct1])
  then have second: "croppedExportSize ''1080p''
       (Some \<lparr>el_videoWidth = 3840, el_videoHeight = 2160, el_src = ''file.mp4''\<rparr>)
       (Some \<lparr>crop_x = 0, crop_y = 0, crop_width = 8601875288277647 / 2 ^ 53, crop_height = 1\<rparr>)
       = Some (1832, 1080)"
    by (simp add: double_of_tie js_round_def makeEven_def)
  from c nz ratio first c' nz' second show ?thesis by (intro conjI)
qed

text \<open>
  The claim as stated fails: for a square source the streaming exporter still answers
  1920 x 1080, where the aspect ratio gives 1080 x 1080 (as the other exporter
  computes); and on a crop of height zero the other exporter has no finite width.
\<close>

theorem export_size_1080p_counterexample:
  "presetExportSize ''1080p'' \<lparr>el_videoWidth = 1000, el_videoHeight = 1000, el_src = ''file.mp4''\<rparr>
     = (1920, 1080)
   \<and> croppedExportSize ''1080p''
        (Some \<lparr>el_videoWidth = 1000, el_videoHeight = 1000, el_src = ''file.mp4''\<rparr>) None
      = Some (1080, 1080)
   \<and> croppedExportSize ''1080p''
        (Some \<lparr>el_videoWidth = 1000, el_videoHeight = 1000, el_src = ''file.mp4''\<rparr>)
        (Some \<lparr>crop_x = 0, crop_y = 0, crop_width = 1, crop_height = 0\<rparr>)
      = None"
proof -
  have d: "double_of 1000 = 1000" "double_of 1 = 1" "double_of 1080 = 1080" "double_of 0 = 0"
    using double_of_int [of 1000] double_of_int [of 1] double_of_int [of 1080]
    by (simp_all add: double_of_def)
  show ?thesis
    by (simp add: presetExportSize_def croppedExportSize_def croppedSize_def lookup_1080p
                  js_round_def makeEven_def d)
qed

text \<open>
  C3. A call of exportAndDownload made while an export is in flight is rejected at once
  with the error "Export already in progress": no effect is issued (no element created,
  no fetch, no call of the backend) and the fields of the exporter are left as they are.
  This holds for both exporters.
\<close>

theorem export_rejected_while_exporting:
  "(isExporting this \<longrightarrow>
      exportAndDownload env this options = (Inl AlreadyInProgress, this, []))
   \<and> (se_isExporting that \<longrightarrow>
      exportAndDownloadStreaming senv that options = Some (Inl AlreadyInProgress, that, []))"
  by (simp add: exportAndDownload_def exportAndDownloadStreaming_def)

theorem export_rejected_while_exporting_witness:
  "isExporting \<lparr>isExporting = True\<rparr>
   \<and> exportAndDownload \<lparr>videoFetchOk = True, audioFetchOk = True, invokeOk = True\<rparr>
        \<lparr>isExporting = True\<rparr>
        \<lparr>opt_video = Some \<lparr>el_videoWidth = 1920, el_videoHeight = 1080, el_src = ''blob:a''\<rparr>,
         opt_segment = Some (segK []), opt_canvas = True, opt_tempCanvas = True,
         opt_dimensions = ''1080p'', opt_speed = None, opt_audioFilePath = ''a.wav'',
         opt_audio = None\<rparr>
      = (Inl AlreadyInProgress, \<lparr>isExporting = True\<rparr>, [])
   \<and> se_isExporting \<lparr>se_isExporting = True, se_shouldStop = True\<rparr>
   \<and> exportAndDownloadStreaming
        \<lparr>loadOk = True, serverPort = Some 8000, seeked = (\<lambda>n. True), frameThrows = (\<lambda>n. False),
         blobNull = (\<lambda>n. False), stopRequested = (\<lambda>n. False), finishOk = True\<rparr>
        \<lparr>se_isExporting = True, se_shouldStop = True\<rparr>
        \<lparr>opt_video = Some \<lparr>el_videoWidth = 1920, el_videoHeight = 1080, el_src = ''blob:a''\<rparr>,
         opt_segment = Some (segK []), opt_canvas = True, opt_tempCanvas = True,
         opt_dimensions = ''1080p'', opt_speed = None, opt_audioFilePath = ''a.wav'',
         opt_audio = None\<rparr>
      = Some (Inl AlreadyInProgress, \<lparr>se_isExporting = True, se_shouldStop = True\<rparr>, [])"
  using export_rejected_while_exporting
    [of "\<lparr>isExporting = True\<rparr>"
        "\<lparr>videoFetchOk = True, audioFetchOk = True, invokeOk = True\<rparr>"
        "\<lparr>opt_video = Some \<lparr>el_videoWidth = 1920, el_videoHeight = 1080, el_src = ''blob:a''\<rparr>,
         opt_segment = Some (segK []), opt_canvas = True, opt_tempCanvas = True,
         opt_dimensions = ''1080p'', opt_speed = None, opt_audioFilePath = ''a.wav'',
         opt_audio = None\<rparr>"
        "\<lparr>se_isExporting = True, se_shouldStop = True\<rparr>"
        "\<lparr>loadOk = True, serverPort = Some 8000, seeked = (\<lambda>n. True), frameThrows = (\<lambda>n. False),
         blobNull = (\<lambda>n. False), stopRequested = (\<lambda>n. False), finishOk = True\<rparr>"]
  by simp

end
